theory Spec2Isabelle
  imports Complex_Main "HOL-Library.AList"
begin

section \<open>Numbers and objects\<close>

text \<open>
  The arithmetic of JavaScript numbers is a parameter: a type \<open>'n\<close> of numbers with the
  operations the code uses. IEEE binary64 arithmetic, with its rounding, its infinities and
  NaN, is one such arithmetic, and what is proved for every arithmetic holds for it. The
  examples are evaluated in \<open>double\<close>, its finite part.
  \<open>js_int\<close> gives the integer literals, \<open>js_le\<close> is \<open><=\<close>, \<open>js_gt\<close> is \<open>>\<close> and
  \<open>js_hypot\<close> is \<open>Math.hypot\<close> of two arguments.
\<close>

record 'n arith =
  js_int :: "int \<Rightarrow> 'n"
  js_add :: "'n \<Rightarrow> 'n \<Rightarrow> 'n"
  js_sub :: "'n \<Rightarrow> 'n \<Rightarrow> 'n"
  js_mul :: "'n \<Rightarrow> 'n \<Rightarrow> 'n"
  js_div :: "'n \<Rightarrow> 'n \<Rightarrow> 'n"
  js_le :: "'n \<Rightarrow> 'n \<Rightarrow> bool"
  js_gt :: "'n \<Rightarrow> 'n \<Rightarrow> bool"
  js_hypot :: "'n \<Rightarrow> 'n \<Rightarrow> 'n"

text \<open>
  Binary64 arithmetic on finite numbers: every operation returns the exact result rounded
  to the nearest double, ties to the even significand. Around \<open>x\<close> with
  \<open>2^e \<le> |x| < 2^(e+1)\<close> the doubles are the multiples of \<open>2^(e-52)\<close>, and of
  \<open>2^(-1074)\<close> below \<open>2^(-1022)\<close>. Results beyond the largest double (which the code's
  arithmetic turns into an infinity), NaN and the sign of zero are not part of it.
\<close>

definition round_even :: "real \<Rightarrow> int" where
  "round_even y =
     (let f = \<lfloor>y\<rfloor>; d = y - of_int f
      in if d < 1 / 2 then f else if 1 / 2 < d then f + 1 else if even f then f else f + 1)"

definition binade :: "real \<Rightarrow> int" where
  "binade x = \<lfloor>log 2 \<bar>x\<bar>\<rfloor>"

definition expo :: "real \<Rightarrow> int" where
  "expo x = max (binade x) (- 1022)"

definition quantum :: "real \<Rightarrow> real" where
  "quantum x = 2 powr (of_int (expo x) - 52)"

definition round64 :: "real \<Rightarrow> real" where
  "round64 x = (if x = 0 then 0 else of_int (round_even (x / quantum x)) * quantum x)"

text \<open>
  The language leaves the precision of \<open>Math.hypot\<close> to the implementation; it is taken
  as correctly rounded. It is exact on the arguments of the examples below.
\<close>

definition double :: "real arith" where
  "double =
     \<lparr>js_int = (\<lambda>i. round64 (of_int i)),
      js_add = (\<lambda>x y. round64 (x + y)), js_sub = (\<lambda>x y. round64 (x - y)),
      js_mul = (\<lambda>x y. round64 (x * y)), js_div = (\<lambda>x y. round64 (x / y)),
      js_le = (\<lambda>x y. x \<le> y), js_gt = (\<lambda>x y. x > y),
      js_hypot = (\<lambda>x y. round64 (sqrt (x * x + y * y)))\<rparr>"

text \<open>
  A plain object used as a dictionary is the list of its own enumerable properties in the
  order \<open>Object.keys\<close>, \<open>Object.values\<close> and \<open>Object.entries\<close> enumerate them: the
  keys that are array indices first, in ascending numeric order, then the other keys in
  the order of their creation.
\<close>

definition is_digit :: "char \<Rightarrow> bool" where
  "is_digit c = (c \<in> set ''0123456789'')"

definition decimal :: "string \<Rightarrow> nat" where
  "decimal s = foldl (\<lambda>n c. 10 * n + (of_char c - 48)) 0 s"

text \<open>An array index is the canonical decimal form of an integer from 0 to \<open>2^32 - 2\<close>.\<close>

definition index_of :: "string \<Rightarrow> nat option" where
  "index_of s =
     (if s \<noteq> [] \<and> list_all is_digit s \<and> (hd s \<noteq> CHR ''0'' \<or> s = ''0'')
         \<and> decimal s \<le> 4294967294
      then Some (decimal s) else None)"

fun insert_index :: "nat \<Rightarrow> string \<Rightarrow> 'v \<Rightarrow> (string \<times> 'v) list \<Rightarrow> (string \<times> 'v) list" where
  "insert_index n k v [] = [(k, v)]"
| "insert_index n k v (p # rest) =
     (case index_of (fst p) of
        Some n' \<Rightarrow> if n' < n then p # insert_index n k v rest else (k, v) # p # rest
      | None \<Rightarrow> (k, v) # p # rest)"

text \<open>
  The assignment \<open>obj[k] = v\<close> to an own property: an existing property keeps its place,
  a new one takes the place its key has in the enumeration order.
\<close>

definition obj_set :: "string \<Rightarrow> 'v \<Rightarrow> (string \<times> 'v) list \<Rightarrow> (string \<times> 'v) list" where
  "obj_set k v obj =
     (if k \<in> fst ` set obj then AList.update k v obj
      else
        (case index_of k of
           Some n \<Rightarrow> insert_index n k v obj
         | None \<Rightarrow> obj @ [(k, v)]))"

text \<open>
  The properties every plain object inherits from \<open>Object.prototype\<close>; each of them is a
  function or an object, hence truthy.
\<close>

definition inherited :: "string \<Rightarrow> bool" where
  "inherited k =
     (k \<in> set [''constructor'', ''__defineGetter__'', ''__defineSetter__'',
                ''hasOwnProperty'', ''__lookupGetter__'', ''__lookupSetter__'',
                ''isPrototypeOf'', ''propertyIsEnumerable'', ''toString'', ''valueOf'',
                ''__proto__'', ''toLocaleString''])"

text \<open>The read \<open>obj[k]\<close>: an own property, an inherited one, or \<open>undefined\<close>.\<close>

datatype 'v lookup = Own 'v | Inherited | Absent

definition obj_get :: "(string \<times> 'v) list \<Rightarrow> string \<Rightarrow> 'v lookup" where
  "obj_get obj k =
     (case map_of obj k of
        Some v \<Rightarrow> Own v
      | None \<Rightarrow> if inherited k then Inherited else Absent)"

section \<open>Motion selection (use-live2d-model-pixi.ts)\<close>

type_synonym 'n MotionWeightMap = "(string \<times> 'n) list"

type_synonym 'n TapMotionMap = "(string \<times> 'n MotionWeightMap) list"

text \<open>
  The callback of \<open>Object.entries(motionGroup).find\<close> in \<open>playRandomMotion\<close>, with the
  captured variable \<open>random\<close> passed along: the result is the motion handed to
  \<open>model.motion\<close>, or \<open>None\<close> when no entry makes the callback return true.
\<close>

fun find_motion :: "'n arith \<Rightarrow> 'n \<Rightarrow> 'n MotionWeightMap \<Rightarrow> string option" where
  "find_motion ar random [] = None"
| "find_motion ar random ((motion, weight) # rest) =
     (let random' = js_sub ar random weight
      in if js_le ar random' (js_int ar 0) then Some motion
         else find_motion ar random' rest)"

text \<open>\<open>Object.values(motionGroup).reduce((sum, weight) => sum + weight, 0)\<close>.\<close>

definition totalWeight :: "'n arith \<Rightarrow> 'n MotionWeightMap \<Rightarrow> 'n" where
  "totalWeight ar motionGroup =
     foldl (\<lambda>sum weight. js_add ar sum weight) (js_int ar 0) (map snd motionGroup)"

text \<open>
  The body of \<open>playRandomMotion\<close> for the value \<open>u\<close> that \<open>Math.random()\<close> returns: the
  motion played at forced priority, if any.
\<close>

definition pickWeighted :: "'n arith \<Rightarrow> 'n \<Rightarrow> 'n MotionWeightMap \<Rightarrow> string option" where
  "pickWeighted ar u motionGroup =
     (if length (map fst motionGroup) = 0 then None
      else
        let random = js_mul ar u (totalWeight ar motionGroup)
        in find_motion ar random motionGroup)"

text \<open>
  For stating which entry is selected: the running remainder once the weights of the
  entries \<open>0, \<dots>, i\<close> have been subtracted from the draw, and the first entry at which
  it is \<open><= 0\<close>.
\<close>

definition remainder :: "'n arith \<Rightarrow> 'n \<Rightarrow> 'n MotionWeightMap \<Rightarrow> nat \<Rightarrow> 'n" where
  "remainder ar random motionGroup i =
     foldl (\<lambda>r weight. js_sub ar r weight) random (map snd (take (Suc i) motionGroup))"

definition first_hit :: "'n arith \<Rightarrow> 'n \<Rightarrow> 'n MotionWeightMap \<Rightarrow> nat \<Rightarrow> bool" where
  "first_hit ar random motionGroup i =
     (i < length motionGroup \<and> js_le ar (remainder ar random motionGroup i) (js_int ar 0)
      \<and> list_all (\<lambda>j. \<not> js_le ar (remainder ar random motionGroup j) (js_int ar 0)) [0..<i])"

text \<open>
  What the selection uses of the arithmetic. In binary64 arithmetic \<open><=\<close> is transitive;
  subtracting a finite number preserves \<open><=\<close>, rounding being monotone; and the
  operations on zeros are exact.
\<close>

definition le_trans :: "'n arith \<Rightarrow> bool" where
  "le_trans ar = (\<forall>x y z. js_le ar x y \<longrightarrow> js_le ar y z \<longrightarrow> js_le ar x z)"

definition sub_mono :: "'n arith \<Rightarrow> 'n \<Rightarrow> bool" where
  "sub_mono ar w = (\<forall>x y. js_le ar x y \<longrightarrow> js_le ar (js_sub ar x w) (js_sub ar y w))"

definition zero_exact :: "'n arith \<Rightarrow> 'n \<Rightarrow> bool" where
  "zero_exact ar u =
     (js_add ar (js_int ar 0) (js_int ar 0) = js_int ar 0
      \<and> js_mul ar u (js_int ar 0) = js_int ar 0
      \<and> js_sub ar (js_int ar 0) (js_int ar 0) = js_int ar 0
      \<and> js_le ar (js_int ar 0) (js_int ar 0))"

text \<open>
  The total weight cancels against the weights: subtracting every weight from it, in
  iteration order, leaves a remainder \<open><= 0\<close>. It does so wherever the additions and
  subtractions are exact.
\<close>

definition cancels :: "'n arith \<Rightarrow> 'n MotionWeightMap \<Rightarrow> bool" where
  "cancels ar motionGroup =
     js_le ar
       (foldl (\<lambda>r weight. js_sub ar r weight) (totalWeight ar motionGroup)
          (map snd motionGroup))
       (js_int ar 0)"

text \<open>
  The observable state of motion playback: the \<open>model.motion\<close> calls made so far, in
  order, and the number of \<open>Math.random()\<close> calls made so far. \<open>rnd n\<close> is the value of
  the \<open>n\<close>-th call.
\<close>

record sel_state =
  played :: "string list"
  drawn :: nat

definition playRandomMotion ::
  "'n arith \<Rightarrow> (nat \<Rightarrow> 'n) \<Rightarrow> 'n MotionWeightMap \<Rightarrow> sel_state \<Rightarrow> sel_state" where
  "playRandomMotion ar rnd motionGroup s =
     (if length (map fst motionGroup) = 0 then s
      else
        (case pickWeighted ar (rnd (drawn s)) motionGroup of
           None \<Rightarrow> s\<lparr>drawn := drawn s + 1\<rparr>
         | Some motion \<Rightarrow> s\<lparr>played := played s @ [motion], drawn := drawn s + 1\<rparr>))"

text \<open>
  The reducer of \<open>getMergedMotionGroup\<close>. \<open>!acc[motion]\<close> reads through the prototype:
  for an absent name \<open>acc[motion]\<close> is created as \<open>{total: 0, count: 0}\<close>; for an inherited
  name nothing is created, and the two updates land on the inherited function or object,
  leaving \<open>acc\<close> without an own property of that name (\<open>tot\<close> is the field \<open>total\<close>).
\<close>

definition add_motion ::
  "'n arith \<Rightarrow> (string \<times> ('n \<times> 'n)) list \<Rightarrow> string \<times> 'n \<Rightarrow> (string \<times> ('n \<times> 'n)) list" where
  "add_motion ar acc e =
     (case e of (motion, weight) \<Rightarrow>
        (case obj_get acc motion of
           Absent \<Rightarrow>
             obj_set motion
               (js_add ar (js_int ar 0) weight, js_add ar (js_int ar 0) (js_int ar 1)) acc
         | Own (tot, count) \<Rightarrow>
             obj_set motion (js_add ar tot weight, js_add ar count (js_int ar 1)) acc
         | Inherited \<Rightarrow> acc))"

definition getMergedMotionGroup :: "'n arith \<Rightarrow> 'n TapMotionMap \<Rightarrow> 'n MotionWeightMap" where
  "getMergedMotionGroup ar tapMotions =
     (let mergedMotions = foldl (add_motion ar) [] (concat (map snd tapMotions))
      in foldl (\<lambda>acc (motion, (tot, count)). obj_set motion (js_div ar tot count) acc)
           [] mergedMotions)"

text \<open>
  The callback of \<open>hitAreas.find\<close> in \<open>handleTapMotion\<close>: the first area for which
  \<open>tapMotions[area]\<close> is truthy is returned, after \<open>playRandomMotion\<close> has run on that
  value. An own group is truthy; so is an inherited property, which has no enumerable keys
  of its own, so that nothing is played for it.
\<close>

fun find_area ::
  "'n arith \<Rightarrow> (nat \<Rightarrow> 'n) \<Rightarrow> 'n TapMotionMap \<Rightarrow> string list \<Rightarrow> sel_state
   \<Rightarrow> string option \<times> sel_state" where
  "find_area ar rnd tapMotions [] s = (None, s)"
| "find_area ar rnd tapMotions (area # rest) s =
     (case obj_get tapMotions area of
        Own motionGroup \<Rightarrow> (Some area, playRandomMotion ar rnd motionGroup s)
      | Inherited \<Rightarrow> (Some area, s)
      | Absent \<Rightarrow> find_area ar rnd tapMotions rest s)"

text \<open>
  \<open>!foundMotion\<close>: \<open>find\<close> returns the area itself, a string, or \<open>undefined\<close>; the
  empty string is falsy as well.
\<close>

definition not_found :: "string option \<Rightarrow> bool" where
  "not_found foundMotion = (case foundMotion of None \<Rightarrow> True | Some area \<Rightarrow> area = [])"

text \<open>
  \<open>handleTapMotion\<close>, given the list \<open>model.hitTest\<close> returns. \<open>tapMotions\<close> is
  \<open>None\<close> when \<open>modelInfo?.tapMotions\<close> is undefined.
\<close>

definition handleTapMotion ::
  "'n arith \<Rightarrow> (nat \<Rightarrow> 'n) \<Rightarrow> 'n TapMotionMap option \<Rightarrow> string list \<Rightarrow> sel_state
   \<Rightarrow> sel_state" where
  "handleTapMotion ar rnd tapMotions hitAreas s =
     (case tapMotions of
        None \<Rightarrow> s
      | Some tm \<Rightarrow>
          (case find_area ar rnd tm hitAreas s of
             (foundMotion, s') \<Rightarrow>
               if not_found foundMotion \<and> length (map fst tm) > 0
               then playRandomMotion ar rnd (getMergedMotionGroup ar tm) s'
               else s'))"

text \<open>
  For stating what the merged group holds: the entries of a motion in a list of entries,
  the groups that contain a motion, and the mean of a list of weights as the code computes
  it, the sum from 0 in list order divided by the count from 0 in steps of 1.
\<close>

definition occ :: "string \<Rightarrow> (string \<times> 'n) list \<Rightarrow> (string \<times> 'n) list" where
  "occ m es = filter (\<lambda>e. fst e = m) es"

definition groups_with :: "string \<Rightarrow> 'n TapMotionMap \<Rightarrow> 'n MotionWeightMap list" where
  "groups_with m tapMotions = filter (\<lambda>g. m \<in> fst ` set g) (map snd tapMotions)"

definition mean :: "'n arith \<Rightarrow> 'n list \<Rightarrow> 'n" where
  "mean ar ws =
     js_div ar
       (foldl (\<lambda>tot w. js_add ar tot w) (js_int ar 0) ws)
       (foldl (\<lambda>count w. js_add ar count (js_int ar 1)) (js_int ar 0) ws)"

text \<open>
  A configuration whose first group belongs to a hit area with the empty name, the state
  before any motion, and a generator that always returns \<open>3/4\<close>.
\<close>

definition unnamed_area_tapMotions :: "real TapMotionMap" where
  "unnamed_area_tapMotions = [('''', [(''wave'', 1)]), (''head'', [(''nod'', 1)])]"

definition idle_sel :: sel_state where
  "idle_sel = \<lparr>played = [], drawn = 0\<rparr>"

definition three_quarters :: "nat \<Rightarrow> real" where
  "three_quarters n = 3 / 4"

text \<open>The configuration of the merge example: \<open>{head: {wave: 1, nod: 1}, body: {wave: 3}}\<close>.\<close>

definition example_tapMotions :: "real TapMotionMap" where
  "example_tapMotions =
     [(''head'', [(''wave'', 1), (''nod'', 1)]), (''body'', [(''wave'', 3)])]"

text \<open>A configuration with a motion named like an inherited property.\<close>

definition constructor_tapMotions :: "real TapMotionMap" where
  "constructor_tapMotions = [(''head'', [(''constructor'', 1), (''wave'', 1)])]"

text \<open>
  The group \<open>{a: 0.7, b: 0.9, c: 1.3}\<close>, each literal denoting the nearest double, and
  the largest value \<open>Math.random()\<close> can return on a grid of \<open>2^(-52)\<close>.
\<close>

definition rounding_group :: "real MotionWeightMap" where
  "rounding_group =
     [(''a'', round64 (7 / 10)), (''b'', round64 (9 / 10)), (''c'', round64 (13 / 10))]"

definition u_top :: real where
  "u_top = 1 - 1 / 2 ^ 52"

section \<open>Pointer interaction (setupModelInteractions)\<close>

text \<open>
  The closure variables of \<open>setupModelInteractions\<close> together with the position of the
  model and the \<open>handleTapMotion(model, x, y)\<close> calls made so far, each recorded with
  its coordinates.
\<close>

record 'n gesture =
  dragging :: bool
  pointerX :: 'n
  pointerY :: 'n
  isTap :: bool
  model_x :: 'n
  model_y :: 'n
  taps :: "('n \<times> 'n) list"

datatype 'n pointer_event =
  PointerDown int 'n 'n
  | PointerMove 'n 'n
  | PointerUp 'n 'n
  | PointerUpOutside

definition dragThreshold :: "'n arith \<Rightarrow> 'n" where
  "dragThreshold ar = js_int ar 5"

text \<open>The state right after the listeners are bound to a model placed at \<open>(x, y)\<close>.\<close>

definition bound_at :: "'n arith \<Rightarrow> 'n \<Rightarrow> 'n \<Rightarrow> 'n gesture" where
  "bound_at ar x y =
     \<lparr>dragging = False, pointerX = js_int ar 0, pointerY = js_int ar 0, isTap = False,
      model_x = x, model_y = y, taps = []\<rparr>"

fun on_event :: "'n arith \<Rightarrow> 'n gesture \<Rightarrow> 'n pointer_event \<Rightarrow> 'n gesture" where
  "on_event ar g (PointerDown button x y) =
     (if button = 0
      then g\<lparr>dragging := True, isTap := True,
             pointerX := js_sub ar x (model_x g), pointerY := js_sub ar y (model_y g)\<rparr>
      else g)"
| "on_event ar g (PointerMove x y) =
     (if dragging g
      then
        let newX = js_sub ar x (pointerX g);
            newY = js_sub ar y (pointerY g);
            dx = js_sub ar newX (model_x g);
            dy = js_sub ar newY (model_y g)
        in g\<lparr>isTap := (if js_gt ar (js_hypot ar dx dy) (dragThreshold ar) then False
                       else isTap g),
             model_x := newX, model_y := newY\<rparr>
      else g)"
| "on_event ar g (PointerUp x y) =
     (if dragging g
      then g\<lparr>dragging := False, taps := (if isTap g then taps g @ [(x, y)] else taps g)\<rparr>
      else g)"
| "on_event ar g PointerUpOutside = g\<lparr>dragging := False\<rparr>"

definition run_events :: "'n arith \<Rightarrow> 'n gesture \<Rightarrow> 'n pointer_event list \<Rightarrow> 'n gesture" where
  "run_events ar g evs = foldl (on_event ar) g evs"

text \<open>A slow drag: three moves of four pixels each after a press at \<open>(100, 100)\<close>.\<close>

definition slow_drag :: "real pointer_event list" where
  "slow_drag =
     [PointerDown 0 100 100, PointerMove 104 100, PointerMove 108 100, PointerMove 112 100]"

section \<open>Speech tasks (use-audio-task.ts)\<close>

text \<open>
  The fields of \<open>DisplayText\<close> that the hook reads (its declaration is in
  \<open>websocket-service\<close>).
\<close>

record DisplayText =
  dt_text :: string
  dt_name :: string
  dt_avatar :: string

datatype expression_id = ExprName string | ExprNumber real

record AudioTaskOptions =
  audioBase64 :: string
  volumes :: "real list"
  sliceLength :: real
  displayText :: "DisplayText option"
  expressions :: "expression_id list option"
  speaker_uid :: "string option"
  forwarded :: "bool option"

text \<open>
  What the collaborators observe, in order. \<open>console.log\<close> output is not recorded;
  \<open>console.warn\<close> and \<open>console.error\<close> are.
\<close>

datatype effect =
  ConsoleWarn
  | ConsoleError
  | AppendResponse string
  | AppendAIMessage string string string
  | SetSubtitleText string
  | SendAudioPlayStart DisplayText
  | ModelExpression expression_id
  | ModelSpeak string
  | ToastError

datatype completion = Normal | Threw

datatype promise = Pending | Resolved | Rejected

text \<open>
  The model handle on \<open>window.live2dModel\<close>, as far as the synchronous part of a call is
  concerned: whether \<open>expression\<close> and \<open>speak\<close> throw.
\<close>

record live2d_model =
  expression_throws :: bool
  speak_throws :: bool

text \<open>
  The run of one task: the effects so far, whether \<open>resolve()\<close> has been called, and
  whether \<open>model.speak\<close> has accepted the two callbacks.
\<close>

record task_run =
  trace :: "effect list"
  resolved :: bool
  speaking :: bool

definition emit :: "effect \<Rightarrow> task_run \<Rightarrow> task_run" where
  "emit e r = r\<lparr>trace := trace r @ [e]\<rparr>"

definition resolve :: "task_run \<Rightarrow> task_run" where
  "resolve r = r\<lparr>resolved := True\<rparr>"

definition started :: task_run where
  "started = \<lparr>trace = [], resolved = False, speaking = False\<rparr>"

text \<open>\<open>!forwarded\<close>: the field is optional.\<close>

definition not_forwarded :: "AudioTaskOptions \<Rightarrow> bool" where
  "not_forwarded options = (case forwarded options of None \<Rightarrow> True | Some b \<Rightarrow> \<not> b)"

text \<open>The block under \<open>if (displayText)\<close>.\<close>

definition display_text_effects :: "AudioTaskOptions \<Rightarrow> effect list" where
  "display_text_effects options =
     (case displayText options of
        None \<Rightarrow> []
      | Some d \<Rightarrow>
          [AppendResponse (dt_text d), AppendAIMessage (dt_text d) (dt_name d) (dt_avatar d)]
          @ (if audioBase64 options \<noteq> [] then [SetSubtitleText (dt_text d)] else [])
          @ (if not_forwarded options then [SendAudioPlayStart d] else []))"

text \<open>\<open>expressions?.[0]\<close>.\<close>

definition first_expression :: "AudioTaskOptions \<Rightarrow> expression_id option" where
  "first_expression options =
     (case expressions options of
        None \<Rightarrow> None
      | Some [] \<Rightarrow> None
      | Some (e # _) \<Rightarrow> Some e)"

definition audioDataUrl :: "AudioTaskOptions \<Rightarrow> string" where
  "audioDataUrl options = ''data:audio/wav;base64,'' @ audioBase64 options"

text \<open>
  The \<open>try\<close> block. A call that throws is recorded as made. The polling of
  \<open>isFinished\<close> by \<open>setTimeout\<close> has no effect on the collaborators and is left out.
\<close>

definition try_block ::
  "live2d_model \<Rightarrow> AudioTaskOptions \<Rightarrow> task_run \<Rightarrow> completion \<times> task_run" where
  "try_block model options r =
     (case
        (case first_expression options of
           None \<Rightarrow> (Normal, r)
         | Some e \<Rightarrow>
             (if expression_throws model then Threw else Normal, emit (ModelExpression e) r))
      of
        (Threw, r1) \<Rightarrow> (Threw, r1)
      | (Normal, r1) \<Rightarrow>
          if audioBase64 options \<noteq> []
          then
            (if speak_throws model
             then (Threw, emit (ModelSpeak (audioDataUrl options)) r1)
             else
               (Normal, (emit (ModelSpeak (audioDataUrl options)) r1)\<lparr>speaking := True\<rparr>))
          else (Normal, resolve r1))"

definition catch_block :: "task_run \<Rightarrow> task_run" where
  "catch_block r = resolve (emit ToastError (emit ConsoleError r))"

text \<open>
  The executor passed to \<open>new Promise\<close> in \<open>handleAudioPlayback\<close>, for the conversation
  state in \<open>stateRef.current\<close> and the handle on \<open>window.live2dModel\<close>, if any.
\<close>

definition executor ::
  "string \<Rightarrow> live2d_model option \<Rightarrow> AudioTaskOptions \<Rightarrow> completion \<times> task_run" where
  "executor currentAiState window_live2dModel options =
     (if currentAiState = ''interrupted''
      then (Normal, resolve (emit ConsoleWarn started))
      else
        let r1 = started\<lparr>trace := display_text_effects options\<rparr>
        in case window_live2dModel of
             None \<Rightarrow> (Normal, resolve (emit ConsoleError r1))
           | Some model \<Rightarrow>
               (case try_block model options r1 of
                  (Threw, r2) \<Rightarrow> (Normal, catch_block r2)
                | (Normal, r2) \<Rightarrow> (Normal, r2)))"

text \<open>
  The promise \<open>new Promise(executor)\<close> yields: resolved once \<open>resolve\<close> has been called,
  rejected when the executor threw before that.
\<close>

definition promise_of :: "completion \<times> task_run \<Rightarrow> promise" where
  "promise_of cr =
     (case cr of (c, r) \<Rightarrow>
        if resolved r then Resolved else if c = Threw then Rejected else Pending)"

text \<open>The callbacks handed to \<open>model.speak\<close>, run later by the audio playback.\<close>

datatype speak_event = OnFinish | OnError

definition on_speak_event :: "speak_event \<Rightarrow> task_run \<Rightarrow> task_run" where
  "on_speak_event ev r =
     (if speaking r
      then (case ev of OnFinish \<Rightarrow> resolve r | OnError \<Rightarrow> resolve (emit ConsoleError r))
      else r)"

text \<open>
  \<open>addAudioTask\<close>. The queue is in \<open>task-queue\<close>; its \<open>addTask\<close> is a parameter, and
  the task \<open>() => handleAudioPlayback(options)\<close> is given by its options.
\<close>

definition addAudioTask ::
  "(AudioTaskOptions \<Rightarrow> 'q \<Rightarrow> 'q) \<Rightarrow> string \<Rightarrow> AudioTaskOptions \<Rightarrow> 'q \<Rightarrow> 'q" where
  "addAudioTask addTask currentState options queue =
     (if currentState = ''interrupted'' then queue else addTask options queue)"

text \<open>
  One run of \<open>handleAudioPlayback\<close>: the executor, then the callback that the audio
  playback makes, if it makes one.
\<close>

definition handleAudioPlayback ::
  "string \<Rightarrow> live2d_model option \<Rightarrow> AudioTaskOptions \<Rightarrow> speak_event option
   \<Rightarrow> completion \<times> task_run" where
  "handleAudioPlayback currentAiState window_live2dModel options callback =
     (case executor currentAiState window_live2dModel options of
        (c, r) \<Rightarrow> (c, case callback of None \<Rightarrow> r | Some ev \<Rightarrow> on_speak_event ev r))"

text \<open>
  The effects on chat history, subtitle and outbound messages, and the calls on the model
  handle.
\<close>

definition is_display_effect :: "effect \<Rightarrow> bool" where
  "is_display_effect e =
     (case e of
        AppendResponse _ \<Rightarrow> True
      | AppendAIMessage _ _ _ \<Rightarrow> True
      | SetSubtitleText _ \<Rightarrow> True
      | SendAudioPlayStart _ \<Rightarrow> True
      | _ \<Rightarrow> False)"

definition is_model_call :: "effect \<Rightarrow> bool" where
  "is_model_call e =
     (case e of ModelSpeak _ \<Rightarrow> True | ModelExpression _ \<Rightarrow> True | _ \<Rightarrow> False)"

text \<open>
  A text-only line and a spoken line with the same display text, a model handle that works
  and one whose \<open>speak\<close> throws.
\<close>

definition hello :: DisplayText where
  "hello = \<lparr>dt_text = ''hello'', dt_name = ''AI'', dt_avatar = ''a.png''\<rparr>"

definition text_only_task :: AudioTaskOptions where
  "text_only_task =
     \<lparr>audioBase64 = [], volumes = [], sliceLength = 20, displayText = Some hello,
      expressions = None, speaker_uid = None, forwarded = None\<rparr>"

definition spoken_task :: AudioTaskOptions where
  "spoken_task =
     \<lparr>audioBase64 = ''UklGRg=='', volumes = [0.5], sliceLength = 20, displayText = Some hello,
      expressions = Some [ExprNumber 3], speaker_uid = None, forwarded = Some False\<rparr>"

definition sound_model :: live2d_model where
  "sound_model = \<lparr>expression_throws = False, speak_throws = False\<rparr>"

definition broken_model :: live2d_model where
  "broken_model = \<lparr>expression_throws = False, speak_throws = True\<rparr>"

section \<open>Model loading (loadModel, setupModel)\<close>

text \<open>
  The refs and React state that \<open>loadModel\<close> and \<open>setupModel\<close> read and write. A model
  handle is identified by a number; \<open>app_stage\<close> is \<open>None\<close> when \<open>appRef.current\<close> is
  null, and the children of the stage otherwise.
\<close>

type_synonym handle = nat

record loader =
  app_stage :: "handle list option"
  modelRef :: "handle option"
  loadingRef :: bool
  isLoading :: bool
  isModelReady :: bool
  destroyed :: "handle list"
  errors :: "string list"

record ModelInfo =
  url :: string
  pointerInteractive :: "bool option"
  idleMotionGroupName :: string

text \<open>\<open>setupModel\<close>; \<open>modelInfo\<close> is \<open>None\<close> when undefined.\<close>

definition setupModel :: "ModelInfo option \<Rightarrow> handle \<Rightarrow> loader \<Rightarrow> loader" where
  "setupModel modelInfo model s =
     (case (app_stage s, modelInfo) of
        (Some children, Some _) \<Rightarrow>
          (case modelRef s of
             Some old \<Rightarrow>
               s\<lparr>app_stage := Some (remove1 old children @ [model]),
                 destroyed := destroyed s @ [old],
                 modelRef := Some model, isModelReady := True\<rparr>
           | None \<Rightarrow>
               s\<lparr>app_stage := Some (children @ [model]),
                 modelRef := Some model, isModelReady := True\<rparr>)
      | _ \<Rightarrow> s)"

text \<open>
  \<open>loadModel\<close> up to its first \<open>await\<close>: the result says whether the call is now waiting
  for \<open>Live2DModel.from\<close> (\<open>True\<close>) or has returned (\<open>False\<close>).
\<close>

definition loadModel_call :: "ModelInfo option \<Rightarrow> loader \<Rightarrow> bool \<times> loader" where
  "loadModel_call modelInfo s =
     (if (case modelInfo of None \<Rightarrow> True | Some mi \<Rightarrow> url mi = []) \<or> app_stage s = None
      then (False, s)
      else if loadingRef s then (False, s)
      else (True, s\<lparr>loadingRef := True, isLoading := True\<rparr>))"

text \<open>
  \<open>loadModel\<close> from the moment \<open>Live2DModel.from\<close> settles, with an error (\<open>Inl\<close>) or a
  model handle (\<open>Inr\<close>): the \<open>try\<close> block (\<open>tried\<close>, the error it throws or the state
  it leaves), the \<open>catch\<close> block, which records the \<open>console.error\<close> call by its error,
  and the \<open>finally\<close> block. The completion says whether an exception leaves the function.
\<close>

definition loadModel_settle ::
  "ModelInfo option \<Rightarrow> string + handle \<Rightarrow> loader \<Rightarrow> completion \<times> loader" where
  "loadModel_settle modelInfo loaded s =
     (let tried =
            (case loaded of
               Inl error \<Rightarrow> Inl error
             | Inr model \<Rightarrow> Inr (setupModel modelInfo model s));
          (c, s1) =
            (case tried of
               Inl error \<Rightarrow> (Normal, s\<lparr>errors := errors s @ [error]\<rparr>)
             | Inr s' \<Rightarrow> (Normal, s'))
      in (c, s1\<lparr>loadingRef := False, isLoading := False\<rparr>))"

text \<open>A loader with one model attached and ready, and a configuration.\<close>

definition ready_loader :: loader where
  "ready_loader =
     \<lparr>app_stage = Some [1], modelRef = Some 1, loadingRef = False, isLoading = False,
      isModelReady = True, destroyed = [], errors = []\<rparr>"

definition shizuku :: ModelInfo where
  "shizuku = \<lparr>url = ''shizuku.model.json'', pointerInteractive = None,
     idleMotionGroupName = ''idle''\<rparr>"

section \<open>Binary64 rounding\<close>

lemma round_even_of_int [simp]: "round_even (of_int k) = k"
  by (simp add: round_even_def)

lemma round_even_floor: "\<lfloor>y\<rfloor> \<le> round_even y" "round_even y \<le> \<lfloor>y\<rfloor> + 1"
  unfolding round_even_def Let_def by auto

lemma round_even_mono: "x \<le> y \<Longrightarrow> round_even x \<le> round_even y"
proof -
  assume xy: "x \<le> y"
  then have fl: "\<lfloor>x\<rfloor> \<le> \<lfloor>y\<rfloor>" by (rule floor_mono)
  show ?thesis
  proof (cases "\<lfloor>x\<rfloor> = \<lfloor>y\<rfloor>")
    case True
    with xy show ?thesis
      unfolding round_even_def Let_def by auto
  next
    case False
    with fl have "\<lfloor>x\<rfloor> + 1 \<le> \<lfloor>y\<rfloor>" by simp
    with round_even_floor(2)[of x] round_even_floor(1)[of y] show ?thesis by linarith
  qed
qed

lemma round_even_minus: "round_even (- y) = - round_even y"
proof (cases "y = of_int \<lfloor>y\<rfloor>")
  case True
  then obtain k where "y = of_int k" by blast
  then have "- y = of_int (- k)" by simp
  with \<open>y = of_int k\<close> show ?thesis
    by (simp only: round_even_of_int)
next
  case False
  then have lt: "of_int \<lfloor>y\<rfloor> < y" using of_int_floor_le[of y] by linarith
  have ub: "y < of_int \<lfloor>y\<rfloor> + 1" by linarith
  have eq: "real_of_int (- \<lfloor>y\<rfloor> - 1) = - of_int \<lfloor>y\<rfloor> - 1" by simp
  have "of_int (- \<lfloor>y\<rfloor> - 1) \<le> - y"
    unfolding eq using ub by linarith
  moreover have "- y < of_int (- \<lfloor>y\<rfloor> - 1) + 1"
    unfolding eq using lt by linarith
  ultimately have fm: "\<lfloor>- y\<rfloor> = - \<lfloor>y\<rfloor> - 1"
    by (rule floor_unique)
  show ?thesis
    unfolding round_even_def Let_def fm
    using lt ub by (auto simp: algebra_simps)
qed


lemma quantum_pos: "0 < quantum x"
  by (simp add: quantum_def)

lemma binade_minus [simp]: "binade (- x) = binade x"
  by (simp add: binade_def)

lemma quantum_minus [simp]: "quantum (- x) = quantum x"
  by (simp add: quantum_def expo_def)

lemma round64_minus: "round64 (- x) = - round64 x"
  by (simp add: round64_def round_even_minus)

lemma binade_bounds:
  assumes "x \<noteq> 0"
  shows "2 powr of_int (binade x) \<le> \<bar>x\<bar>" and "\<bar>x\<bar> < 2 powr (of_int (binade x) + 1)"
proof -
  from assms have pos: "0 < \<bar>x\<bar>" by simp
  have "\<lfloor>log 2 \<bar>x\<bar>\<rfloor> = binade x" by (simp add: binade_def)
  with floor_log_eq_powr_iff[OF pos, of 2 "binade x"]
  show "2 powr of_int (binade x) \<le> \<bar>x\<bar>" and "\<bar>x\<bar> < 2 powr (of_int (binade x) + 1)"
    by simp_all
qed

lemma binade_unique:
  assumes "2 powr of_int e \<le> \<bar>x\<bar>" and "\<bar>x\<bar> < 2 powr (of_int e + 1)"
  shows "binade x = e"
proof -
  have "0 < 2 powr real_of_int e" by simp
  with assms(1) have pos: "0 < \<bar>x\<bar>" by linarith
  from floor_log_eq_powr_iff[OF pos, of 2 e] assms show ?thesis
    by (simp add: binade_def)
qed

lemma binade_mono:
  assumes "0 < x" and "x \<le> y"
  shows "binade x \<le> binade y"
proof -
  from assms have "log 2 x \<le> log 2 y" by simp
  then have "\<lfloor>log 2 x\<rfloor> \<le> \<lfloor>log 2 y\<rfloor>" by (rule floor_mono)
  with assms show ?thesis by (simp add: binade_def)
qed

lemma quantum_expo: "quantum x = 2 powr (of_int (expo x) - 52)"
  by (simp add: quantum_def)

lemma scaled_quantum:
  "(2::real) powr (of_int e + 1) / 2 powr (of_int e - 52) = 2 ^ 53"
proof -
  have "(2::real) powr (of_int e + 1) / 2 powr (of_int e - 52)
      = 2 powr ((of_int e + 1) - (of_int e - 52))"
    by (rule powr_diff[symmetric])
  also have "(of_int e + 1) - (of_int e - 52) = (53::real)" by simp
  also have "(2::real) powr 53 = 2 ^ 53" by simp
  finally show ?thesis .
qed

lemma scaled_quantum':
  "(2::real) powr (of_int e) / 2 powr (of_int e - 52) = 2 ^ 52"
proof -
  have "(2::real) powr (of_int e) / 2 powr (of_int e - 52)
      = 2 powr ((of_int e) - (of_int e - 52))"
    by (rule powr_diff[symmetric])
  also have "(of_int e) - (of_int e - 52) = (52::real)" by simp
  also have "(2::real) powr 52 = 2 ^ 52" by simp
  finally show ?thesis .
qed

lemma round64_upper:
  assumes "0 < x"
  shows "round64 x \<le> 2 powr (of_int (expo x) + 1)"
proof -
  from assms have "x < 2 powr (of_int (binade x) + 1)"
    using binade_bounds(2)[of x] by simp
  also have "\<dots> \<le> 2 powr (of_int (expo x) + 1)"
    by (simp add: expo_def)
  finally have "x / quantum x \<le> 2 powr (of_int (expo x) + 1) / quantum x"
    using quantum_pos[of x] by (simp add: divide_right_mono)
  also have "\<dots> = of_int (2 ^ 53)"
    by (simp add: quantum_expo scaled_quantum)
  finally have "round_even (x / quantum x) \<le> round_even (of_int (2 ^ 53))"
    by (rule round_even_mono)
  then have "round_even (x / quantum x) \<le> 2 ^ 53"
    by (simp only: round_even_of_int)
  then have "real_of_int (round_even (x / quantum x)) \<le> 2 ^ 53"
    by (metis of_int_le_iff of_int_numeral of_int_power)
  then have "round64 x \<le> 2 ^ 53 * quantum x"
    using assms quantum_pos[of x] by (simp add: round64_def)
  also have "\<dots> = 2 powr (of_int (expo x) + 1)"
  proof -
    have "0 < (2::real) powr (of_int (expo x) - 52)" by simp
    with scaled_quantum[of "expo x"] show ?thesis
      unfolding quantum_expo by (simp only: field_simps)
  qed
  finally show ?thesis .
qed

lemma round64_lower:
  assumes "0 < x" and "- 1022 \<le> binade x"
  shows "2 powr of_int (binade x) \<le> round64 x"
proof -
  from assms(2) have e: "expo x = binade x" by (simp add: expo_def)
  from assms have "2 powr of_int (binade x) \<le> x"
    using binade_bounds(1)[of x] by simp
  then have "2 powr of_int (binade x) / quantum x \<le> x / quantum x"
    using quantum_pos[of x] by (simp add: divide_right_mono)
  moreover have "2 powr of_int (binade x) / quantum x = of_int (2 ^ 52)"
    by (simp add: quantum_expo e scaled_quantum')
  ultimately have "round_even (of_int (2 ^ 52)) \<le> round_even (x / quantum x)"
    by (simp only: round_even_mono)
  then have "2 ^ 52 \<le> round_even (x / quantum x)"
    by (simp only: round_even_of_int)
  then have "2 ^ 52 \<le> real_of_int (round_even (x / quantum x))"
    by (metis of_int_le_iff of_int_numeral of_int_power)
  then have "2 ^ 52 * quantum x \<le> round64 x"
    using assms quantum_pos[of x] by (simp add: round64_def)
  moreover have "2 ^ 52 * quantum x = 2 powr of_int (binade x)"
  proof -
    have "0 < (2::real) powr (of_int (binade x) - 52)" by simp
    with scaled_quantum'[of "binade x"] show ?thesis
      unfolding quantum_expo e by (simp only: field_simps)
  qed
  ultimately show ?thesis by simp
qed

lemma round64_nonneg: "0 \<le> x \<Longrightarrow> 0 \<le> round64 x"
proof -
  assume x: "0 \<le> x"
  then have "0 \<le> x / quantum x" using quantum_pos[of x] by simp
  then have "round_even (of_int 0) \<le> round_even (x / quantum x)"
    by (intro round_even_mono) simp
  then have "0 \<le> round_even (x / quantum x)" by (simp only: round_even_of_int)
  with quantum_pos[of x] show ?thesis by (simp add: round64_def)
qed

lemma round64_mono_pos:
  assumes "0 < x" and "x \<le> y"
  shows "round64 x \<le> round64 y"
proof -
  from assms have y: "0 < y" by simp
  from assms have b: "binade x \<le> binade y" by (rule binade_mono)
  then have e: "expo x \<le> expo y" by (simp add: expo_def)
  show ?thesis
  proof (cases "expo x = expo y")
    case True
    then have q: "quantum x = quantum y" by (simp add: quantum_expo)
    from assms quantum_pos[of y] have "x / quantum y \<le> y / quantum y"
      by (simp add: divide_right_mono)
    then have "round_even (x / quantum y) \<le> round_even (y / quantum y)"
      by (rule round_even_mono)
    then have "real_of_int (round_even (x / quantum y)) * quantum y
        \<le> real_of_int (round_even (y / quantum y)) * quantum y"
      using quantum_pos[of y] by simp
    with assms y show ?thesis by (simp add: round64_def q)
  next
    case False
    with e have lt: "expo x < expo y" by simp
    then have ey: "expo y = binade y" and ge: "- 1022 \<le> binade y"
      by (auto simp: expo_def max_def split: if_splits)
    have "round64 x \<le> 2 powr (of_int (expo x) + 1)"
      using assms(1) by (rule round64_upper)
    also have "\<dots> \<le> 2 powr of_int (binade y)"
    proof -
      from lt ey have "expo x + 1 \<le> binade y" by simp
      then have "real_of_int (expo x) + 1 \<le> real_of_int (binade y)"
        by (metis of_int_1 of_int_add of_int_le_iff)
      then show ?thesis by simp
    qed
    also have "\<dots> \<le> round64 y"
      using y ge by (rule round64_lower)
    finally show ?thesis .
  qed
qed

lemma round64_zero [simp]: "round64 0 = 0"
  by (simp add: round64_def)

lemma round64_mono: "x \<le> y \<Longrightarrow> round64 x \<le> round64 y"
proof -
  assume xy: "x \<le> y"
  consider "0 < x" | "x \<le> 0" "0 \<le> y" | "y < 0" by linarith
  then show ?thesis
  proof cases
    case 1
    with xy show ?thesis by (simp add: round64_mono_pos)
  next
    case 2
    from 2(1) have "0 \<le> round64 (- x)" by (intro round64_nonneg) simp
    then have "round64 x \<le> 0" by (simp add: round64_minus)
    also have "0 \<le> round64 y" using 2(2) by (rule round64_nonneg)
    finally show ?thesis .
  next
    case 3
    with xy have "0 < - y" "- y \<le> - x" by simp_all
    then have "round64 (- y) \<le> round64 (- x)" by (rule round64_mono_pos)
    then show ?thesis by (simp add: round64_minus)
  qed
qed


lemma round64_at:
  assumes q: "q = 2 powr of_int k" and k: "- 1074 \<le> k"
    and lo: "q * 2 ^ 52 \<le> \<bar>x\<bar>" and hi: "\<bar>x\<bar> < q * 2 ^ 53"
  shows "round64 x = of_int (round_even (x / q)) * q"
proof -
  have e52: "(2::real) powr of_int (k + 52) = q * 2 ^ 52"
  proof -
    have "real_of_int (k + 52) = of_int k + 52" by simp
    then have "(2::real) powr of_int (k + 52) = 2 powr (of_int k + 52)" by (simp only:)
    also have "\<dots> = 2 powr of_int k * 2 powr 52" by (rule powr_add)
    also have "(2::real) powr 52 = 2 ^ 52" by simp
    finally show ?thesis by (simp only: q)
  qed
  have e53: "(2::real) powr (of_int (k + 52) + 1) = q * 2 ^ 53"
  proof -
    have "real_of_int (k + 52) + 1 = of_int k + 53" by simp
    then have "(2::real) powr (of_int (k + 52) + 1) = 2 powr (of_int k + 53)" by (simp only:)
    also have "\<dots> = 2 powr of_int k * 2 powr 53" by (rule powr_add)
    also have "(2::real) powr 53 = 2 ^ 53" by simp
    finally show ?thesis by (simp only: q)
  qed
  have "2 powr of_int (k + 52) \<le> \<bar>x\<bar>"
    using lo by (simp only: e52)
  moreover have "\<bar>x\<bar> < 2 powr (of_int (k + 52) + 1)"
    using hi by (simp only: e53)
  ultimately have b: "binade x = k + 52" by (rule binade_unique)
  with k have "expo x = k + 52" by (simp add: expo_def)
  then have qx: "quantum x = q" by (simp add: quantum_expo q)
  have "0 < q" by (simp add: q)
  with lo have "x \<noteq> 0" by (auto simp: zero_less_mult_iff)
  then show ?thesis by (simp add: round64_def qx)
qed

lemma round64_fix:
  assumes m: "\<bar>m\<bar> < 2 ^ 53" and j: "j \<le> 1074"
  shows "round64 (of_int m / 2 ^ j) = of_int m / 2 ^ j"
proof (cases "m = 0")
  case True
  then show ?thesis by simp
next
  case False
  define x where "x = real_of_int m / 2 ^ j"
  from False have x0: "x \<noteq> 0" by (simp add: x_def)
  have pj: "(2::real) ^ j = 2 powr real j" by (simp add: powr_realpow)
  have "\<bar>real_of_int m\<bar> < 2 ^ 53"
    using m by (metis of_int_abs of_int_less_iff of_int_numeral of_int_power)
  then have "\<bar>x\<bar> < 2 ^ 53 / 2 ^ j"
    by (simp add: x_def divide_strict_right_mono)
  also have "(2::real) ^ 53 / 2 ^ j = 2 powr (53 - real j)"
    by (simp add: pj powr_diff)
  finally have "2 powr of_int (binade x) < (2::real) powr (53 - real j)"
    using binade_bounds(1)[OF x0] by linarith
  then have "real_of_int (binade x) < 53 - real j" by simp
  then have "binade x < 53 - int j" by linarith
  with j have e: "expo x \<le> 52 - int j" by (simp add: expo_def)
  define n where "n = nat (52 - int j - expo x)"
  from e have n: "int n = 52 - int j - expo x" by (simp add: n_def)
  have "real n = 52 - real j - real_of_int (expo x)"
    using n by (metis of_int_diff of_int_numeral of_int_of_nat_eq)
  then have "x / quantum x = of_int m * (2 powr (- real j) / 2 powr (of_int (expo x) - 52))"
    by (simp add: x_def quantum_expo pj powr_minus_divide)
  also have "2 powr (- real j) / 2 powr (of_int (expo x) - 52) = (2::real) powr real n"
  proof -
    have "(2::real) powr (- real j) / 2 powr (of_int (expo x) - 52)
        = 2 powr (- real j - (of_int (expo x) - 52))"
      by (rule powr_diff[symmetric])
    also have "- real j - (real_of_int (expo x) - 52) = real n"
      using \<open>real n = 52 - real j - real_of_int (expo x)\<close> by linarith
    finally show ?thesis .
  qed
  also have "(2::real) powr real n = 2 ^ n" by (simp add: powr_realpow)
  finally have "x / quantum x = of_int (m * 2 ^ n)" by simp
  then have "round_even (x / quantum x) = m * 2 ^ n"
    by (simp only: round_even_of_int)
  then have "round64 x = of_int (m * 2 ^ n) * quantum x"
    using x0 by (simp add: round64_def)
  also have "\<dots> = (x / quantum x) * quantum x"
    using \<open>x / quantum x = of_int (m * 2 ^ n)\<close> by simp
  also have "\<dots> = x" using quantum_pos[of x] by simp
  finally show ?thesis by (simp add: x_def)
qed

lemma round64_numeral [simp]:
  "numeral n < (2::int) ^ 53 \<Longrightarrow> round64 (numeral n) = numeral n"
  "numeral n < (2::int) ^ 53 \<Longrightarrow> round64 (- numeral n) = - numeral n"
  "round64 1 = 1" "round64 (- 1) = - 1"
  using round64_fix[of "numeral n" 0] round64_fix[of "- numeral n" 0]
    round64_fix[of 1 0] round64_fix[of "- 1" 0]
  by simp_all


lemma round64_eval:
  assumes n: "n \<le> 1074" and lo: "2 ^ 52 \<le> \<bar>x\<bar> * 2 ^ n" and hi: "\<bar>x\<bar> * 2 ^ n < 2 ^ 53"
  shows "round64 x = of_int (round_even (x * 2 ^ n)) / 2 ^ n"
proof -
  have q: "1 / (2::real) ^ n = 2 powr of_int (- int n)"
    by (simp add: powr_minus_divide powr_realpow)
  have k: "- 1074 \<le> - int n" using n by simp
  have l: "1 / 2 ^ n * 2 ^ 52 \<le> \<bar>x\<bar>"
    using lo by (simp add: field_simps)
  have h: "\<bar>x\<bar> < 1 / 2 ^ n * 2 ^ 53"
    using hi by (simp add: field_simps)
  from round64_at[OF q k l h] show ?thesis by simp
qed

text \<open>The arithmetic of doubles has what the selection uses.\<close>

lemma double_simps [simp]:
  "js_int double i = round64 (of_int i)" "js_add double x y = round64 (x + y)"
  "js_sub double x y = round64 (x - y)" "js_mul double x y = round64 (x * y)"
  "js_div double x y = round64 (x / y)"
  "js_le double x y \<longleftrightarrow> x \<le> y" "js_gt double x y \<longleftrightarrow> x > y"
  "js_hypot double x y = round64 (sqrt (x * x + y * y))"
  by (simp_all add: double_def)

lemma double_arith: "le_trans double" "sub_mono double w" "zero_exact double u"
  by (simp_all add: le_trans_def sub_mono_def zero_exact_def round64_mono)

text \<open>
  A double stays as it is when it is rounded again: a significand below \<open>2^53\<close> and an
  exponent of at least \<open>-1074\<close> are representable.
\<close>

lemma round64_fix_expo:
  assumes m: "\<bar>m\<bar> < 2 ^ 53" and e: "- 1074 \<le> e"
  shows "round64 (of_int m * 2 powr of_int e) = of_int m * 2 powr of_int e"
proof (cases "m = 0")
  case True
  then show ?thesis by simp
next
  case False
  define x where "x = real_of_int m * 2 powr of_int e"
  from False have x0: "x \<noteq> 0" by (simp add: x_def)
  have "\<bar>real_of_int m\<bar> < 2 ^ 53"
    using m by (metis of_int_abs of_int_less_iff of_int_numeral of_int_power)
  then have "\<bar>x\<bar> < 2 ^ 53 * 2 powr of_int e"
    by (simp add: x_def abs_mult)
  also have "(2::real) ^ 53 * 2 powr of_int e = 2 powr (53 + of_int e)"
  proof -
    have "(2::real) powr (53 + of_int e) = 2 powr 53 * 2 powr of_int e" by (rule powr_add)
    also have "(2::real) powr 53 = 2 ^ 53" by simp
    finally show ?thesis by simp
  qed
  finally have "2 powr of_int (binade x) < (2::real) powr (53 + of_int e)"
    using binade_bounds(1)[OF x0] by linarith
  then have "real_of_int (binade x) < 53 + real_of_int e" by simp
  then have "binade x < 53 + e" by linarith
  with e have le: "expo x \<le> 52 + e" by (simp add: expo_def)
  define n where "n = nat (52 + e - expo x)"
  from le have n: "int n = 52 + e - expo x" by (simp add: n_def)
  have rn: "real n = 52 + real_of_int e - real_of_int (expo x)"
    using n by (metis of_int_add of_int_diff of_int_numeral of_int_of_nat_eq)
  have "x / quantum x = of_int m * (2 powr of_int e / 2 powr (of_int (expo x) - 52))"
    by (simp add: x_def quantum_expo)
  also have "2 powr of_int e / 2 powr (of_int (expo x) - 52) = (2::real) powr real n"
  proof -
    have "(2::real) powr of_int e / 2 powr (of_int (expo x) - 52)
        = 2 powr (of_int e - (of_int (expo x) - 52))"
      by (rule powr_diff[symmetric])
    also have "real_of_int e - (real_of_int (expo x) - 52) = real n"
      using rn by linarith
    finally show ?thesis .
  qed
  also have "(2::real) powr real n = 2 ^ n" by (simp add: powr_realpow)
  finally have xq: "x / quantum x = of_int (m * 2 ^ n)" by simp
  then have "round_even (x / quantum x) = m * 2 ^ n"
    by (simp only: round_even_of_int)
  then have "round64 x = of_int (m * 2 ^ n) * quantum x"
    using x0 by (simp add: round64_def)
  also have "\<dots> = (x / quantum x) * quantum x"
    using xq by simp
  also have "\<dots> = x" using quantum_pos[of x] by simp
  finally show ?thesis by (simp add: x_def)
qed

lemma round_even_abs_le:
  assumes "\<bar>y\<bar> \<le> of_int k"
  shows "\<bar>round_even y\<bar> \<le> k"
proof -
  from assms have "y \<le> of_int k" "of_int (- k) \<le> y" by simp_all
  then have "round_even y \<le> round_even (of_int k)" "round_even (of_int (- k)) \<le> round_even y"
    by (simp_all only: round_even_mono)
  then have "round_even y \<le> k" "- k \<le> round_even y"
    by (simp_all only: round_even_of_int)
  then show ?thesis by linarith
qed

lemma round64_idem: "round64 (round64 x) = round64 x"
proof (cases "x = 0")
  case True
  then show ?thesis by simp
next
  case False
  define k where "k = round_even (x / quantum x)"
  have v: "round64 x = of_int k * 2 powr of_int (expo x - 52)"
    using False by (simp add: round64_def k_def quantum_expo)
  have ex: "- 1074 \<le> expo x - 52" by (simp add: expo_def)
  have "\<bar>x\<bar> < 2 powr (of_int (binade x) + 1)"
    using binade_bounds(2)[OF False] .
  also have "\<dots> \<le> 2 powr (of_int (expo x) + 1)" by (simp add: expo_def)
  finally have "\<bar>x\<bar> / quantum x \<le> 2 powr (of_int (expo x) + 1) / quantum x"
    using quantum_pos[of x] by (simp add: divide_right_mono)
  also have "\<dots> = of_int (2 ^ 53)"
    by (simp add: quantum_expo scaled_quantum)
  finally have "\<bar>x / quantum x\<bar> \<le> of_int (2 ^ 53)"
    using quantum_pos[of x] by (simp add: abs_divide)
  then have kb: "\<bar>k\<bar> \<le> 2 ^ 53"
    unfolding k_def by (rule round_even_abs_le)
  show ?thesis
  proof (cases "\<bar>k\<bar> < 2 ^ 53")
    case True
    from round64_fix_expo[OF True ex] show ?thesis by (simp only: v)
  next
    case False
    with kb have "\<bar>k\<bar> = 2 ^ 53" by simp
    then consider "k = 2 ^ 53" | "k = - (2 ^ 53)" by (auto simp: abs_if split: if_splits)
    then obtain h :: int where h: "\<bar>h\<bar> < 2 ^ 53" "k = 2 * h"
    proof cases
      case 1
      have "\<bar>(2::int) ^ 52\<bar> < 2 ^ 53" by simp
      moreover from 1 have "k = 2 * 2 ^ 52" by simp
      ultimately show ?thesis by (rule that)
    next
      case 2
      have "\<bar>- ((2::int) ^ 52)\<bar> < 2 ^ 53" by simp
      moreover from 2 have "k = 2 * (- (2 ^ 52))" by simp
      ultimately show ?thesis by (rule that)
    qed
    have "real_of_int (expo x - 52 + 1) = of_int (expo x - 52) + 1" by simp
    then have "(2::real) powr of_int (expo x - 52 + 1) = 2 powr (of_int (expo x - 52) + 1)"
      by (simp only:)
    also have "\<dots> = 2 powr of_int (expo x - 52) * 2 powr 1" by (rule powr_add)
    finally have p: "(2::real) powr of_int (expo x - 52 + 1) = 2 * 2 powr of_int (expo x - 52)"
      by simp
    have v': "round64 x = of_int h * 2 powr of_int (expo x - 52 + 1)"
      unfolding v h(2) p by simp
    have ex': "- 1074 \<le> expo x - 52 + 1" using ex by simp
    from round64_fix_expo[OF h(1) ex'] show ?thesis by (simp only: v')
  qed
qed

lemma round64_halves:
  "round64 (1 / 2) = 1 / 2" "round64 (- (1 / 2)) = - (1 / 2)"
  "round64 (3 / 2) = 3 / 2" "round64 (3 / 4) = 3 / 4" "round64 (- (1 / 4)) = - (1 / 4)"
  using round64_fix[of 1 1] round64_fix[of "- 1" 1] round64_fix[of 3 1]
    round64_fix[of 3 2] round64_fix[of "- 1" 2]
  by simp_all

section \<open>Weighted selection\<close>

lemma remainder_Cons:
  "remainder ar r ((m, w) # g) 0 = js_sub ar r w"
  "remainder ar r ((m, w) # g) (Suc i) = remainder ar (js_sub ar r w) g i"
  by (simp_all add: remainder_def)

lemma first_hit_0_iff:
  "first_hit ar r ((m, w) # g) 0 \<longleftrightarrow> js_le ar (js_sub ar r w) (js_int ar 0)"
  by (simp add: first_hit_def remainder_Cons)

lemma upt_all_Suc:
  "(\<forall>j \<in> set [0..<Suc i]. P j) \<longleftrightarrow> P 0 \<and> (\<forall>j \<in> set [0..<i]. P (Suc j))"
proof -
  have "(\<forall>j \<in> set [0..<Suc i]. P j) \<longleftrightarrow> (\<forall>j < Suc i. P j)"
    unfolding set_upt by auto
  also have "\<dots> \<longleftrightarrow> P 0 \<and> (\<forall>j < i. P (Suc j))"
    by (rule All_less_Suc2)
  also have "\<dots> \<longleftrightarrow> P 0 \<and> (\<forall>j \<in> set [0..<i]. P (Suc j))"
    unfolding set_upt by auto
  finally show ?thesis .
qed

lemma first_hit_Suc_iff:
  "first_hit ar r ((m, w) # g) (Suc i) \<longleftrightarrow>
     \<not> js_le ar (js_sub ar r w) (js_int ar 0) \<and> first_hit ar (js_sub ar r w) g i"
  unfolding first_hit_def list_all_iff upt_all_Suc
  by (auto simp: remainder_Cons)

lemma first_hit_Nil: "\<not> first_hit ar r [] i"
  by (simp add: first_hit_def)

lemma find_motion_iff:
  "find_motion ar r g = Some m \<longleftrightarrow> (\<exists>i. first_hit ar r g i \<and> fst (g ! i) = m)"
proof (induction g arbitrary: r)
  case Nil
  show ?case by (simp add: first_hit_Nil)
next
  case (Cons e g)
  obtain k w where e: "e = (k, w)" by (cases e)
  show ?case
  proof (cases "js_le ar (js_sub ar r w) (js_int ar 0)")
    case True
    have "(\<exists>i. first_hit ar r (e # g) i \<and> fst ((e # g) ! i) = m) \<longleftrightarrow> k = m"
    proof
      assume "\<exists>i. first_hit ar r (e # g) i \<and> fst ((e # g) ! i) = m"
      then obtain i where i: "first_hit ar r (e # g) i" "fst ((e # g) ! i) = m" by blast
      from i(1) True have "i = 0"
        by (cases i) (simp_all add: e first_hit_Suc_iff)
      with i(2) show "k = m" by (simp add: e)
    next
      assume "k = m"
      with True have "first_hit ar r (e # g) 0 \<and> fst ((e # g) ! 0) = m"
        by (simp add: e first_hit_0_iff)
      then show "\<exists>i. first_hit ar r (e # g) i \<and> fst ((e # g) ! i) = m" by blast
    qed
    with True show ?thesis by (simp add: e)
  next
    case False
    have "(\<exists>i. first_hit ar r (e # g) i \<and> fst ((e # g) ! i) = m) \<longleftrightarrow>
          (\<exists>j. first_hit ar (js_sub ar r w) g j \<and> fst (g ! j) = m)"
    proof
      assume "\<exists>i. first_hit ar r (e # g) i \<and> fst ((e # g) ! i) = m"
      then obtain i where i: "first_hit ar r (e # g) i" "fst ((e # g) ! i) = m" by blast
      from i(1) False obtain j where j: "i = Suc j"
        by (cases i) (simp_all add: e first_hit_0_iff)
      with i have "first_hit ar (js_sub ar r w) g j \<and> fst (g ! j) = m"
        by (simp add: e first_hit_Suc_iff)
      then show "\<exists>j. first_hit ar (js_sub ar r w) g j \<and> fst (g ! j) = m" by blast
    next
      assume "\<exists>j. first_hit ar (js_sub ar r w) g j \<and> fst (g ! j) = m"
      then obtain j where "first_hit ar (js_sub ar r w) g j" "fst (g ! j) = m" by blast
      with False have "first_hit ar r (e # g) (Suc j) \<and> fst ((e # g) ! Suc j) = m"
        by (simp add: e first_hit_Suc_iff)
      then show "\<exists>i. first_hit ar r (e # g) i \<and> fst ((e # g) ! i) = m" by blast
    qed
    with False Cons.IH[of "js_sub ar r w"] show ?thesis by (simp add: e)
  qed
qed

lemma first_hit_unique: "first_hit ar r g i \<Longrightarrow> first_hit ar r g j \<Longrightarrow> i = j"
proof (induction g arbitrary: r i j)
  case Nil
  then show ?case by (simp add: first_hit_Nil)
next
  case (Cons e g)
  obtain k w where e: "e = (k, w)" by (cases e)
  from Cons.prems show ?case
    by (cases i; cases j) (auto simp: e first_hit_0_iff first_hit_Suc_iff dest: Cons.IH)
qed

lemma find_motion_hit:
  "g \<noteq> [] \<Longrightarrow>
   js_le ar (foldl (\<lambda>r weight. js_sub ar r weight) r (map snd g)) (js_int ar 0) \<Longrightarrow>
   \<exists>i. first_hit ar r g i \<and> find_motion ar r g = Some (fst (g ! i))"
proof (induction g arbitrary: r)
  case Nil
  then show ?case by simp
next
  case (Cons e g)
  obtain k w where e: "e = (k, w)" by (cases e)
  show ?case
  proof (cases "js_le ar (js_sub ar r w) (js_int ar 0)")
    case True
    then have "first_hit ar r (e # g) 0 \<and> find_motion ar r (e # g) = Some (fst ((e # g) ! 0))"
      by (simp add: e first_hit_0_iff)
    then show ?thesis by blast
  next
    case False
    with Cons.prems have ne: "g \<noteq> []" by (auto simp: e)
    from Cons.prems
    have "js_le ar (foldl (\<lambda>r weight. js_sub ar r weight) (js_sub ar r w) (map snd g)) (js_int ar 0)"
      by (simp add: e)
    from Cons.IH[OF ne this] obtain i
      where i: "first_hit ar (js_sub ar r w) g i"
        "find_motion ar (js_sub ar r w) g = Some (fst (g ! i))"
      by blast
    from False i have "first_hit ar r (e # g) (Suc i) \<and>
        find_motion ar r (e # g) = Some (fst ((e # g) ! Suc i))"
      by (simp add: e first_hit_Suc_iff)
    then show ?thesis by blast
  qed
qed

lemma countdown_mono:
  "list_all (sub_mono ar) ws \<Longrightarrow> js_le ar x y \<Longrightarrow>
   js_le ar (foldl (\<lambda>r weight. js_sub ar r weight) x ws)
            (foldl (\<lambda>r weight. js_sub ar r weight) y ws)"
proof (induction ws arbitrary: x y)
  case Nil
  then show ?case by simp
next
  case (Cons w ws)
  from Cons.prems have "js_le ar (js_sub ar x w) (js_sub ar y w)"
    by (simp add: sub_mono_def)
  with Cons.prems Cons.IH show ?case by simp
qed

lemma total_of_zeros:
  "js_add ar (js_int ar 0) (js_int ar 0) = js_int ar 0 \<Longrightarrow>
   list_all (\<lambda>e. snd e = js_int ar 0) g \<Longrightarrow> totalWeight ar g = js_int ar 0"
proof -
  assume z: "js_add ar (js_int ar 0) (js_int ar 0) = js_int ar 0"
  have "list_all (\<lambda>w. w = js_int ar 0) ws \<Longrightarrow>
        foldl (\<lambda>sum weight. js_add ar sum weight) (js_int ar 0) ws = js_int ar 0" for ws
    by (induction ws) (simp_all add: z)
  moreover assume "list_all (\<lambda>e. snd e = js_int ar 0) g"
  ultimately show ?thesis
    by (simp add: totalWeight_def list_all_iff)
qed

lemma total_is_double:
  "g \<noteq> [] \<Longrightarrow> round64 (totalWeight double g) = totalWeight double g"
proof -
  assume "g \<noteq> []"
  then obtain xs w where g: "map snd g = xs @ [w]"
    by (metis Nil_is_map_conv rev_exhaust)
  show ?thesis
    by (simp add: totalWeight_def g round64_idem)
qed

text \<open>
  In the arithmetic of doubles a draw in \<open>[0, 1)\<close> scaled by a total weight that is not
  negative does not exceed it.
\<close>

lemma double_draw_le:
  assumes "0 \<le> u" and "u < 1" and "g \<noteq> []" and "0 \<le> totalWeight double g"
  shows "js_le double (js_mul double u (totalWeight double g)) (totalWeight double g)"
    and "js_le double (js_int double 0) (js_mul double u (totalWeight double g))"
proof -
  from assms have "u * totalWeight double g \<le> totalWeight double g"
    by (simp add: mult_left_le_one_le)
  then have "round64 (u * totalWeight double g) \<le> round64 (totalWeight double g)"
    by (rule round64_mono)
  with assms(3) show "js_le double (js_mul double u (totalWeight double g)) (totalWeight double g)"
    by (simp add: total_is_double)
  from assms have "0 \<le> u * totalWeight double g" by simp
  then show "js_le double (js_int double 0) (js_mul double u (totalWeight double g))"
    by (simp add: round64_nonneg)
qed

text \<open>
  C1 (as amended), for every arithmetic: the empty map selects nothing; a motion is
  selected exactly when it is the key of the first entry, in iteration order, at which the
  running remainder of the draw times the total weight is \<open><= 0\<close>, so that whatever is
  selected is a key of the map; a motion is selected whenever the scaled draw is at most
  the total weight, \<open><=\<close> is transitive and preserved by subtracting each weight of the
  map, and the total weight cancels against the weights; and a non-empty map whose
  weights are all 0 selects its first entry, the operations on zeros being exact.
\<close>

theorem pickWeighted_selection:
  "pickWeighted ar u [] = None
   \<and> (pickWeighted ar u g = Some m \<longleftrightarrow>
        (\<exists>i. first_hit ar (js_mul ar u (totalWeight ar g)) g i \<and> fst (g ! i) = m))
   \<and> (pickWeighted ar u g = Some m \<longrightarrow> m \<in> fst ` set g)
   \<and> (g \<noteq> [] \<and> le_trans ar \<and> list_all (sub_mono ar) (map snd g)
        \<and> js_le ar (js_mul ar u (totalWeight ar g)) (totalWeight ar g) \<and> cancels ar g \<longrightarrow>
        (\<exists>i. first_hit ar (js_mul ar u (totalWeight ar g)) g i
              \<and> pickWeighted ar u g = Some (fst (g ! i))))
   \<and> (g \<noteq> [] \<and> zero_exact ar u \<and> list_all (\<lambda>e. snd e = js_int ar 0) g \<longrightarrow>
        pickWeighted ar u g = Some (fst (hd g)))"
proof (intro conjI impI)
  let ?random = "js_mul ar u (totalWeight ar g)"
  show "pickWeighted ar u [] = None"
    by (simp add: pickWeighted_def)
  show iff: "pickWeighted ar u g = Some m \<longleftrightarrow>
      (\<exists>i. first_hit ar ?random g i \<and> fst (g ! i) = m)"
  proof (cases "g = []")
    case True
    then show ?thesis by (simp add: pickWeighted_def first_hit_Nil)
  next
    case False
    then show ?thesis by (simp add: pickWeighted_def find_motion_iff)
  qed
  {
    assume "pickWeighted ar u g = Some m"
    with iff obtain i where "first_hit ar ?random g i" "fst (g ! i) = m" by blast
    then have "i < length g" "fst (g ! i) = m" by (simp_all add: first_hit_def)
    then show "m \<in> fst ` set g" by (metis imageI nth_mem)
  }
  {
    assume a: "g \<noteq> [] \<and> le_trans ar \<and> list_all (sub_mono ar) (map snd g)
        \<and> js_le ar ?random (totalWeight ar g) \<and> cancels ar g"
    then have "js_le ar (foldl (\<lambda>r weight. js_sub ar r weight) ?random (map snd g))
        (foldl (\<lambda>r weight. js_sub ar r weight) (totalWeight ar g) (map snd g))"
      by (simp add: countdown_mono)
    moreover from a have "js_le ar
        (foldl (\<lambda>r weight. js_sub ar r weight) (totalWeight ar g) (map snd g)) (js_int ar 0)"
      by (simp add: cancels_def)
    moreover from a have "le_trans ar" by simp
    ultimately have "js_le ar (foldl (\<lambda>r weight. js_sub ar r weight) ?random (map snd g))
        (js_int ar 0)"
      unfolding le_trans_def by blast
    with a find_motion_hit[of g ar ?random]
    show "\<exists>i. first_hit ar ?random g i \<and> pickWeighted ar u g = Some (fst (g ! i))"
      by (simp add: pickWeighted_def)
  }
  {
    assume a: "g \<noteq> [] \<and> zero_exact ar u \<and> list_all (\<lambda>e. snd e = js_int ar 0) g"
    then obtain k w rest where g: "g = (k, w) # rest" by (cases g) auto
    from a have z: "zero_exact ar u" by simp
    from a z have "totalWeight ar g = js_int ar 0"
      by (simp add: total_of_zeros zero_exact_def)
    moreover from a g have "w = js_int ar 0" by simp
    ultimately show "pickWeighted ar u g = Some (fst (hd g))"
      using z by (simp add: pickWeighted_def g zero_exact_def)
  }
qed

theorem pickWeighted_selection_witness:
  "pickWeighted double (1 / 2) [(''wave'', 1), (''nod'', 3)] = Some ''nod''
   \<and> first_hit double 2 [(''wave'', 1), (''nod'', 3)] 1
   \<and> pickWeighted double (1 / 2) [(''wave'', 0), (''nod'', 0)] = Some ''wave''"
proof -
  let ?g = "[(''wave'', 1::real), (''nod'', 3)]"
  let ?z = "[(''wave'', 0::real), (''nod'', 0)]"
  have W: "totalWeight double ?g = 4"
    by (simp add: totalWeight_def)
  have h: "?g \<noteq> [] \<and> le_trans double \<and> list_all (sub_mono double) (map snd ?g)
      \<and> js_le double (js_mul double (1 / 2) (totalWeight double ?g)) (totalWeight double ?g)
      \<and> cancels double ?g"
    by (simp add: double_arith cancels_def W)
  from pickWeighted_selection[of double "1 / 2" ?g] h
  obtain i where i: "first_hit double (js_mul double (1 / 2) (totalWeight double ?g)) ?g i"
      "pickWeighted double (1 / 2) ?g = Some (fst (?g ! i))"
    by blast
  have one: "first_hit double 2 ?g 1"
    by (simp add: first_hit_def remainder_def)
  from i(1) have "first_hit double 2 ?g i" by (simp add: W)
  then have "i = 1" by (rule first_hit_unique[OF _ one])
  with i have a: "pickWeighted double (1 / 2) ?g = Some ''nod''" by simp
  have hz: "?z \<noteq> [] \<and> zero_exact double (1 / 2) \<and> list_all (\<lambda>e. snd e = js_int double 0) ?z"
    by (simp add: double_arith)
  from pickWeighted_selection[of double "1 / 2" ?z] hz
  have "pickWeighted double (1 / 2) ?z = Some (fst (hd ?z))" by blast
  then have b: "pickWeighted double (1 / 2) ?z = Some ''wave''" by simp
  from a one b show ?thesis by blast
qed

text \<open>
  The doubles that the literals \<open>0.7\<close>, \<open>0.9\<close> and \<open>1.3\<close> denote, and the steps of
  \<open>playRandomMotion\<close> on them for the draw \<open>1 - 2^(-52)\<close>: the three sums of the total
  weight, the scaled draw, and the three remainders.
\<close>

lemma literals:
  "round64 (7 / 10) = 3152519739159347 / 2 ^ 52"
  "round64 (9 / 10) = 8106479329266893 / 2 ^ 53"
  "round64 (13 / 10) = 5854679515581645 / 2 ^ 52"
proof -
  show "round64 (7 / 10) = 3152519739159347 / 2 ^ 52"
    by (subst round64_eval[of 53]) (simp_all add: round_even_def)
  show "round64 (9 / 10) = 8106479329266893 / 2 ^ 53"
    by (subst round64_eval[of 53]) (simp_all add: round_even_def)
  show "round64 (13 / 10) = 5854679515581645 / 2 ^ 52"
    by (subst round64_eval[of 52]) (simp_all add: round_even_def)
qed

text \<open>
  The sums: \<open>0 + a\<close> is \<open>a\<close>; \<open>a + b\<close> is \<open>14411518807585587 / 2^53\<close>, a tie that
  goes to the even neighbour; that sum plus \<open>c\<close> is \<open>13060438919374439 / 2^52\<close>, a tie
  again. The total weight is \<open>6530219459687220 / 2^51\<close>, about \<open>2.9000000000000004\<close>.
\<close>

lemma total_steps:
  "round64 (3152519739159347 / 4503599627370496) = 3152519739159347 / 2 ^ 52"
  "round64 (14411518807585587 / 9007199254740992) = 7205759403792794 / 2 ^ 52"
  "round64 (13060438919374439 / 4503599627370496) = 6530219459687220 / 2 ^ 51"
proof -
  show "round64 (3152519739159347 / 4503599627370496) = 3152519739159347 / 2 ^ 52"
    using round64_fix[of 3152519739159347 52] by simp
  show "round64 (14411518807585587 / 9007199254740992) = 7205759403792794 / 2 ^ 52"
    by (subst round64_eval[of 52]) (simp_all add: round_even_def)
  show "round64 (13060438919374439 / 4503599627370496) = 6530219459687220 / 2 ^ 51"
    by (subst round64_eval[of 51]) (simp_all add: round_even_def)
qed

text \<open>
  The draw times the total weight, \<open>(2^52 - 1) * 6530219459687220 / 2^103\<close>, rounds to
  \<open>6530219459687219 / 2^51\<close>, one step below the total weight.
\<close>

lemma draw_step:
  "round64 (7352373481323729796845939143475 / 2535301200456458802993406410752)
     = 6530219459687219 / 2 ^ 51"
  by (subst round64_eval[of 51]) (simp_all add: round_even_def)

text \<open>
  The remainders: the draw less \<open>a\<close> is \<open>9907919180215091 / 2^52\<close>, that less \<open>b\<close> is
  \<open>11709359031163291 / 2^53\<close>, both ties; the last one less \<open>c\<close> is \<open>2^(-52)\<close>.
\<close>

lemma remainder_steps:
  "round64 (9907919180215091 / 4503599627370496) = 4953959590107546 / 2 ^ 51"
  "round64 (11709359031163291 / 9007199254740992) = 5854679515581646 / 2 ^ 52"
  "round64 (1 / 4503599627370496) = 1 / 2 ^ 52"
proof -
  show "round64 (9907919180215091 / 4503599627370496) = 4953959590107546 / 2 ^ 51"
    by (subst round64_eval[of 51]) (simp_all add: round_even_def)
  show "round64 (11709359031163291 / 9007199254740992) = 5854679515581646 / 2 ^ 52"
    by (subst round64_eval[of 52]) (simp_all add: round_even_def)
  show "round64 (1 / 4503599627370496) = 1 / 2 ^ 52"
    using round64_fix[of 1 52] by simp
qed

lemma rounding_group_total: "totalWeight double rounding_group = 6530219459687220 / 2 ^ 51"
  by (simp add: totalWeight_def rounding_group_def literals total_steps)

lemma rounding_group_nothing: "pickWeighted double u_top rounding_group = None"
  by (simp add: pickWeighted_def totalWeight_def rounding_group_def u_top_def
      literals total_steps draw_step remainder_steps)

text \<open>
  C1 (as stated) fails twice: the map \<open>{wave: 0}\<close>, of total weight 0, does select a
  motion; and the map \<open>{a: 0.7, b: 0.9, c: 1.3}\<close>, of total weight above 0, selects none
  for the draw \<open>1 - 2^(-52)\<close>, the last remainder being \<open>2^(-52)\<close>.
\<close>

theorem pickWeighted_counterexample:
  "totalWeight double [(''wave'', 0)] = 0
   \<and> pickWeighted double (1 / 2) [(''wave'', 0)] = Some ''wave''
   \<and> 0 \<le> u_top \<and> u_top < 1
   \<and> 0 < totalWeight double rounding_group
   \<and> pickWeighted double u_top rounding_group = None"
proof -
  have "totalWeight double [(''wave'', 0)] = 0"
    by (simp add: totalWeight_def)
  moreover have "pickWeighted double (1 / 2) [(''wave'', 0)] = Some ''wave''"
    by (simp add: pickWeighted_def totalWeight_def)
  moreover have "0 \<le> u_top" "u_top < 1"
    by (simp_all add: u_top_def)
  moreover have "0 < totalWeight double rounding_group"
    by (simp add: rounding_group_total)
  ultimately show ?thesis
    using rounding_group_nothing by blast
qed

section \<open>Merged fallback group\<close>

lemmas key_simps = obj_set_def obj_get_def inherited_def index_of_def is_digit_def decimal_def

text \<open>
  C2 (as amended): for \<open>{head: {wave: 1, nod: 1}, body: {wave: 3}}\<close> the merged group is
  \<open>{wave: 2, nod: 1}\<close>: \<open>nod\<close> occurs in one group only and is divided by 1.
\<close>

theorem merged_example_value:
  "getMergedMotionGroup double example_tapMotions = [(''wave'', 2), (''nod'', 1)]"
  by (simp add: getMergedMotionGroup_def example_tapMotions_def add_motion_def key_simps)

text \<open>
  C2 (as stated) fails: the merged group of the example is not \<open>{wave: 2, nod: 0.5}\<close>.
\<close>

theorem merged_example_counterexample:
  "getMergedMotionGroup double example_tapMotions \<noteq> [(''wave'', 2), (''nod'', 1 / 2)]"
  by (simp add: getMergedMotionGroup_def example_tapMotions_def add_motion_def key_simps)

text \<open>
  C4: for \<open>{head: {constructor: 1, wave: 1}}\<close> the motion names of the groups include
  \<open>constructor\<close>, and the merged group is \<open>{wave: 1}\<close>: the name of an inherited
  property is not a key of it.
\<close>

theorem merged_inherited_name_dropped:
  "''constructor'' \<in> (\<Union>g \<in> set (map snd constructor_tapMotions). fst ` set g)
   \<and> getMergedMotionGroup double constructor_tapMotions = [(''wave'', 1)]
   \<and> ''constructor'' \<notin> fst ` set (getMergedMotionGroup double constructor_tapMotions)"
  by (simp add: getMergedMotionGroup_def constructor_tapMotions_def add_motion_def key_simps)

subsection \<open>Objects\<close>

lemma map_of_insert_index:
  "k \<notin> fst ` set obj \<Longrightarrow> map_of (insert_index n k v obj) = (map_of obj)(k \<mapsto> v)"
proof (induction obj)
  case Nil
  show ?case by simp
next
  case (Cons p obj)
  then have "k \<noteq> fst p" and "k \<notin> fst ` set obj" by auto
  with Cons.IH show ?case
    by (cases p) (auto simp: fun_upd_twist split: option.splits)
qed

lemma keys_insert_index:
  "fst ` set (insert_index n k v obj) = insert k (fst ` set obj)"
  by (induction obj) (auto split: option.splits)

lemma distinct_insert_index:
  "k \<notin> fst ` set obj \<Longrightarrow> distinct (map fst obj) \<Longrightarrow>
   distinct (map fst (insert_index n k v obj))"
proof (induction obj)
  case Nil
  show ?case by simp
next
  case (Cons p obj)
  then have "k \<noteq> fst p" and "k \<notin> fst ` set obj" by auto
  with Cons show ?case
    by (auto simp: keys_insert_index split: option.splits)
qed

lemma map_of_snoc_fresh:
  "k \<notin> fst ` set obj \<Longrightarrow> [k \<mapsto> v] ++ map_of obj = (map_of obj)(k \<mapsto> v)"
proof
  fix m
  assume "k \<notin> fst ` set obj"
  then have "map_of obj k = None" by (simp add: map_of_eq_None_iff)
  then show "([k \<mapsto> v] ++ map_of obj) m = ((map_of obj)(k \<mapsto> v)) m"
    by (cases "map_of obj m") (auto simp: map_add_def)
qed

lemma map_of_obj_set: "map_of (obj_set k v obj) = (map_of obj)(k \<mapsto> v)"
proof (cases "k \<in> fst ` set obj")
  case True
  then show ?thesis by (simp add: obj_set_def AList.update_conv')
next
  case False
  then show ?thesis
    by (cases "index_of k") (simp_all add: obj_set_def map_of_insert_index map_of_snoc_fresh)
qed

lemma keys_obj_set: "fst ` set (obj_set k v obj) = insert k (fst ` set obj)"
  by (auto simp: obj_set_def AList.dom_update keys_insert_index split: option.splits)

lemma distinct_obj_set:
  "distinct (map fst obj) \<Longrightarrow> distinct (map fst (obj_set k v obj))"
  by (auto simp: obj_set_def AList.distinct_update distinct_insert_index split: option.splits)

subsection \<open>The reducer\<close>

lemma map_of_add_motion:
  "map_of (add_motion ar acc (k, w)) m =
     (if m = k \<and> \<not> (map_of acc k = None \<and> inherited k)
      then Some (case map_of acc k of
                   None \<Rightarrow> (js_add ar (js_int ar 0) w, js_add ar (js_int ar 0) (js_int ar 1))
                 | Some (t, c) \<Rightarrow> (js_add ar t w, js_add ar c (js_int ar 1)))
      else map_of acc m)"
  by (auto simp: add_motion_def obj_get_def map_of_obj_set split: option.splits)

lemma distinct_add_motion:
  "distinct (map fst acc) \<Longrightarrow> distinct (map fst (add_motion ar acc e))"
  by (cases e) (auto simp: add_motion_def obj_get_def distinct_obj_set split: option.splits)

lemma distinct_foldl_add_motion:
  "distinct (map fst acc) \<Longrightarrow> distinct (map fst (foldl (add_motion ar) acc es))"
  by (induction es arbitrary: acc) (simp_all add: distinct_add_motion)

lemma map_of_foldl_add_motion:
  assumes "\<not> inherited m"
  shows "map_of (foldl (add_motion ar) acc es) m =
     (if occ m es = [] then map_of acc m
      else Some (case map_of acc m of
                   None \<Rightarrow>
                     (foldl (\<lambda>tot w. js_add ar tot w) (js_int ar 0) (map snd (occ m es)),
                      foldl (\<lambda>count w. js_add ar count (js_int ar 1)) (js_int ar 0)
                        (map snd (occ m es)))
                 | Some (t, c) \<Rightarrow>
                     (foldl (\<lambda>tot w. js_add ar tot w) t (map snd (occ m es)),
                      foldl (\<lambda>count w. js_add ar count (js_int ar 1)) c
                        (map snd (occ m es)))))"
proof (induction es arbitrary: acc)
  case Nil
  show ?case by (simp add: occ_def)
next
  case (Cons e es)
  obtain k w where e: "e = (k, w)" by (cases e)
  show ?case
    unfolding e foldl_Cons Cons.IH
    using assms by (auto simp: map_of_add_motion occ_def split: option.splits)
qed

lemma map_of_foldl_add_motion_inherited:
  "inherited m \<Longrightarrow> map_of acc m = None \<Longrightarrow> map_of (foldl (add_motion ar) acc es) m = None"
proof (induction es arbitrary: acc)
  case Nil
  then show ?case by simp
next
  case (Cons e es)
  obtain k w where e: "e = (k, w)" by (cases e)
  have "map_of (add_motion ar acc (k, w)) m = None"
    using Cons.prems by (auto simp: map_of_add_motion)
  with Cons show ?case by (simp add: e)
qed

lemma map_of_foldl_obj_set:
  "distinct (map fst xs) \<Longrightarrow>
   map_of (foldl (\<lambda>acc (k, v). obj_set k (f v) acc) acc xs) m =
     (case map_of xs m of Some v \<Rightarrow> Some (f v) | None \<Rightarrow> map_of acc m)"
proof (induction xs arbitrary: acc)
  case Nil
  show ?case by simp
next
  case (Cons x xs)
  obtain k v where x: "x = (k, v)" by (cases x)
  from Cons.prems have d: "distinct (map fst xs)" and fresh: "map_of xs k = None"
    by (auto simp: x map_of_eq_None_iff)
  show ?case
    using fresh by (simp add: x Cons.IH[OF d] map_of_obj_set split: option.splits)
qed

lemma distinct_foldl_obj_set:
  "distinct (map fst acc) \<Longrightarrow>
   distinct (map fst (foldl (\<lambda>acc (k, v). obj_set k (f v) acc) acc xs))"
  by (induction xs arbitrary: acc) (auto simp: distinct_obj_set)

lemma merged_as_fold:
  "getMergedMotionGroup ar tm =
     foldl (\<lambda>acc (k, v). obj_set k (case v of (t, c) \<Rightarrow> js_div ar t c) acc) []
       (foldl (add_motion ar) [] (concat (map snd tm)))"
proof -
  have "(\<lambda>acc (motion, (tot, count)). obj_set motion (js_div ar tot count) acc) =
     (\<lambda>acc (k, v). obj_set k (case v of (t, c) \<Rightarrow> js_div ar t c) acc)"
    by (simp add: fun_eq_iff split: prod.splits)
  then show ?thesis
    unfolding getMergedMotionGroup_def Let_def by simp
qed

lemma map_of_merged:
  "map_of (getMergedMotionGroup ar tm) m =
     map_option (\<lambda>(t, c). js_div ar t c)
       (map_of (foldl (add_motion ar) [] (concat (map snd tm))) m)"
proof -
  have "distinct (map fst (foldl (add_motion ar) [] (concat (map snd tm))))"
    by (rule distinct_foldl_add_motion) simp
  then show ?thesis
    unfolding merged_as_fold
    by (simp add: map_of_foldl_obj_set split: option.splits)
qed

lemma distinct_merged: "distinct (map fst (getMergedMotionGroup ar tm))"
  unfolding merged_as_fold by (rule distinct_foldl_obj_set) simp

lemma occ_empty_iff: "occ m es = [] \<longleftrightarrow> m \<notin> fst ` set es"
  by (auto simp: occ_def filter_empty_conv)

lemma map_of_merged_value:
  "map_of (getMergedMotionGroup ar tm) m =
     (if inherited m \<or> m \<notin> fst ` set (concat (map snd tm)) then None
      else Some (mean ar (map snd (occ m (concat (map snd tm))))))"
proof (cases "inherited m")
  case True
  then show ?thesis
    by (simp add: map_of_merged map_of_foldl_add_motion_inherited)
next
  case False
  then show ?thesis
    by (simp add: map_of_merged map_of_foldl_add_motion occ_empty_iff mean_def)
qed

lemma keys_merged:
  "fst ` set (getMergedMotionGroup ar tm) =
     {m \<in> (\<Union>g \<in> set (map snd tm). fst ` set g). \<not> inherited m}"
proof -
  have "fst ` set (getMergedMotionGroup ar tm) = dom (map_of (getMergedMotionGroup ar tm))"
    by (simp add: dom_map_of_conv_image_fst)
  also have "\<dots> = {m. \<not> inherited m \<and> m \<in> fst ` set (concat (map snd tm))}"
    by (auto simp: map_of_merged_value dom_def split: if_splits)
  also have "\<dots> = {m \<in> (\<Union>g \<in> set (map snd tm). fst ` set g). \<not> inherited m}"
    by auto
  finally show ?thesis .
qed

lemma occ_distinct:
  "distinct (map fst g) \<Longrightarrow>
   occ m g = (case map_of g m of None \<Rightarrow> [] | Some w \<Rightarrow> [(m, w)])"
proof (induction g)
  case Nil
  show ?case by (simp add: occ_def)
next
  case (Cons e g)
  then show ?case
    by (cases e)
       (auto simp: occ_def map_of_eq_None_iff filter_empty_conv image_iff split: option.splits)
qed

lemma occ_append: "occ m (xs @ ys) = occ m xs @ occ m ys"
  by (simp add: occ_def)

lemma occ_group_length:
  assumes "distinct (map fst g)"
  shows "length (occ m g) = (if m \<in> fst ` set g then 1 else 0)"
proof (cases "map_of g m")
  case None
  then have "m \<notin> fst ` set g" by (simp add: map_of_eq_None_iff)
  with None show ?thesis by (simp add: occ_distinct[OF assms])
next
  case (Some w)
  then have "m \<in> fst ` set g"
    using map_of_eq_None_iff[of g m] by simp
  with Some show ?thesis by (simp add: occ_distinct[OF assms])
qed

lemma occ_concat_length:
  "\<forall>g \<in> set gs. distinct (map fst g) \<Longrightarrow>
   length (occ m (concat gs)) = length (filter (\<lambda>g. m \<in> fst ` set g) gs)"
proof (induction gs)
  case Nil
  show ?case by (simp add: occ_def)
next
  case (Cons g gs)
  then show ?case by (simp add: occ_append occ_group_length)
qed

text \<open>
  What the merged group holds: its keys are the motion names of the groups that are not
  names of inherited properties, each once; each maps to the mean, as the code computes
  it, of the weights the name has in the groups, one weight per group that contains it.
\<close>

lemma getMergedMotionGroup_mean:
  assumes "\<forall>g \<in> set (map snd tapMotions). distinct (map fst g)"
  shows "fst ` set (getMergedMotionGroup ar tapMotions)
           = {m \<in> (\<Union>g \<in> set (map snd tapMotions). fst ` set g). \<not> inherited m}
       \<and> distinct (map fst (getMergedMotionGroup ar tapMotions))
       \<and> (\<forall>m \<in> fst ` set (getMergedMotionGroup ar tapMotions).
            map_of (getMergedMotionGroup ar tapMotions) m =
              Some (mean ar (map snd (occ m (concat (map snd tapMotions)))))
            \<and> length (occ m (concat (map snd tapMotions)))
                = length (groups_with m tapMotions))"
proof (intro conjI ballI)
  show "fst ` set (getMergedMotionGroup ar tapMotions)
      = {m \<in> (\<Union>g \<in> set (map snd tapMotions). fst ` set g). \<not> inherited m}"
    by (rule keys_merged)
  show "distinct (map fst (getMergedMotionGroup ar tapMotions))"
    by (rule distinct_merged)
next
  fix m
  assume "m \<in> fst ` set (getMergedMotionGroup ar tapMotions)"
  then have "\<not> inherited m" "m \<in> fst ` set (concat (map snd tapMotions))"
    unfolding keys_merged by auto
  then show "map_of (getMergedMotionGroup ar tapMotions) m =
      Some (mean ar (map snd (occ m (concat (map snd tapMotions)))))"
    by (simp add: map_of_merged_value)
next
  fix m
  show "length (occ m (concat (map snd tapMotions))) = length (groups_with m tapMotions)"
    unfolding groups_with_def by (rule occ_concat_length) (use assms in simp)
qed

section \<open>Tap resolution\<close>

lemma find_area_first:
  "list_all (\<lambda>a. obj_get tm a = Absent) pre \<Longrightarrow> obj_get tm area = Own g \<Longrightarrow>
   find_area ar rnd tm (pre @ area # post) s = (Some area, playRandomMotion ar rnd g s)"
  by (induction pre) simp_all

lemma find_area_none:
  "list_all (\<lambda>a. obj_get tm a = Absent) hitAreas \<Longrightarrow>
   find_area ar rnd tm hitAreas s = (None, s)"
  by (induction hitAreas) simp_all

text \<open>
  The first hit area with a configured group decides, whatever follows it, as long as
  its name is not empty.
\<close>

lemma handleTapMotion_named_area:
  assumes "list_all (\<lambda>a. obj_get tm a = Absent) pre" and "obj_get tm area = Own g"
    and "area \<noteq> []"
  shows "handleTapMotion ar rnd (Some tm) (pre @ area # post) s = playRandomMotion ar rnd g s"
  using assms(3)
  by (simp add: handleTapMotion_def find_area_first[OF assms(1,2)] not_found_def)

text \<open>An area with the empty name is taken for no area: the fallback runs as well.\<close>

lemma handleTapMotion_unnamed_area:
  assumes "list_all (\<lambda>a. obj_get tm a = Absent) pre" and "obj_get tm [] = Own g"
  shows "handleTapMotion ar rnd (Some tm) (pre @ [] # post) s =
     playRandomMotion ar rnd (getMergedMotionGroup ar tm) (playRandomMotion ar rnd g s)"
proof -
  from assms(2) have "tm \<noteq> []" by (auto simp: obj_get_def inherited_def)
  then show ?thesis
    by (simp add: handleTapMotion_def find_area_first[OF assms] not_found_def)
qed

lemma handleTapMotion_fallback:
  assumes "list_all (\<lambda>a. obj_get tm a = Absent) hitAreas" and "tm \<noteq> []"
  shows "handleTapMotion ar rnd (Some tm) hitAreas s =
     playRandomMotion ar rnd (getMergedMotionGroup ar tm) s"
  using assms(2) by (simp add: handleTapMotion_def find_area_none[OF assms(1)] not_found_def)

lemma find_area_played_empty: "played (snd (find_area ar rnd [] hitAreas s)) = played s"
  by (induction hitAreas) (simp_all add: obj_get_def)

lemma handleTapMotion_no_groups:
  "played (handleTapMotion ar rnd (Some []) hitAreas s) = played s"
  "handleTapMotion ar rnd None hitAreas s = s"
proof -
  obtain f s' where f: "find_area ar rnd [] hitAreas s = (f, s')"
    by (cases "find_area ar rnd [] hitAreas s")
  with find_area_played_empty[of ar rnd hitAreas s] have "played s' = played s" by simp
  with f show "played (handleTapMotion ar rnd (Some []) hitAreas s) = played s"
    by (simp add: handleTapMotion_def)
  show "handleTapMotion ar rnd None hitAreas s = s"
    by (simp add: handleTapMotion_def)
qed

text \<open>
  C5: with the configuration \<open>{"": {wave: 1}, head: {nod: 1}}\<close> and the hit-test result
  \<open>[""]\<close>, the first area has a configured group, whose selection alone plays \<open>wave\<close>;
  \<open>handleTapMotion\<close> plays \<open>wave\<close> and then a motion of the merged fallback group
  as well, here \<open>nod\<close>, which is not in the group of that area.
\<close>

theorem handleTapMotion_unnamed_area_plays_twice:
  "played (playRandomMotion double three_quarters [(''wave'', 1)] idle_sel) = [''wave'']
   \<and> played (handleTapMotion double three_quarters (Some unnamed_area_tapMotions) [''''] idle_sel)
       = [''wave'', ''nod'']"
  by (simp add: handleTapMotion_def unnamed_area_tapMotions_def idle_sel_def three_quarters_def
      playRandomMotion_def pickWeighted_def totalWeight_def not_found_def
      getMergedMotionGroup_def add_motion_def key_simps round64_halves)

section \<open>Tap or drag\<close>

lemma sqrt_squares: "sqrt 16 = 4" "sqrt 144 = 12"
  using real_sqrt_abs2[of 4] real_sqrt_abs2[of 12] by simp_all

text \<open>
  C3: after a press at \<open>(100, 100)\<close> on a model at the origin and three moves of 4
  pixels, the model is 12 pixels from its position at the drag start, beyond the
  threshold of 5, yet \<open>isTap\<close> is set and the tap motion fires on \<open>pointerup\<close>: each
  move is compared with the position the previous move left.
\<close>

theorem slow_drag_keeps_tap:
  "js_gt double
     (js_hypot double
        (js_sub double (model_x (run_events double (bound_at double 0 0) slow_drag))
           (model_x (bound_at double 0 0)))
        (js_sub double (model_y (run_events double (bound_at double 0 0) slow_drag))
           (model_y (bound_at double 0 0))))
     (dragThreshold double)
   \<and> model_x (run_events double (bound_at double 0 0) slow_drag) = 12
   \<and> isTap (run_events double (bound_at double 0 0) slow_drag)
   \<and> taps (on_event double (run_events double (bound_at double 0 0) slow_drag)
        (PointerUp 112 100))
       = [(112, 100)]"
  by (simp add: slow_drag_def bound_at_def run_events_def Let_def dragThreshold_def
      sqrt_squares)

section \<open>Display text of a speech task\<close>

text \<open>
  The collaborators \<open>appendResponse\<close>, \<open>appendAIMessage\<close>, \<open>setSubtitleText\<close>,
  \<open>sendMessage\<close> and \<open>toaster.create\<close> are taken not to throw; \<open>model.expression\<close>
  and \<open>model.speak\<close> may.
\<close>

lemma try_block_trace:
  "\<exists>more. trace (snd (try_block model options r)) = trace r @ more
     \<and> list_all (\<lambda>e. \<not> is_display_effect e) more"
  by (auto simp: try_block_def emit_def resolve_def is_display_effect_def
           split: option.splits)

lemma catch_block_trace: "trace (catch_block r) = trace r @ [ConsoleError, ToastError]"
  by (simp add: catch_block_def emit_def resolve_def)

lemma on_speak_event_trace:
  "\<exists>more. trace (on_speak_event ev r) = trace r @ more
     \<and> list_all (\<lambda>e. \<not> is_display_effect e) more"
  by (cases ev) (auto simp: on_speak_event_def emit_def resolve_def is_display_effect_def)

lemma executor_trace:
  assumes "currentAiState \<noteq> ''interrupted''"
  shows "\<exists>rest. trace (snd (executor currentAiState model options))
            = display_text_effects options @ rest
          \<and> list_all (\<lambda>e. \<not> is_display_effect e) rest"
proof (cases model)
  case None
  with assms show ?thesis
    by (simp add: executor_def started_def emit_def resolve_def is_display_effect_def)
next
  case (Some m)
  let ?r1 = "started\<lparr>trace := display_text_effects options\<rparr>"
  obtain more where more: "trace (snd (try_block m options ?r1)) = trace ?r1 @ more"
      "list_all (\<lambda>e. \<not> is_display_effect e) more"
    using try_block_trace by blast
  obtain c r2 where t: "try_block m options ?r1 = (c, r2)" by (cases "try_block m options ?r1")
  show ?thesis
  proof (cases c)
    case Normal
    with assms Some t more show ?thesis
      by (simp add: executor_def)
  next
    case Threw
    with assms Some t more show ?thesis
      by (simp add: executor_def catch_block_trace is_display_effect_def)
  qed
qed

lemma handleAudioPlayback_trace:
  assumes "currentAiState \<noteq> ''interrupted''"
  shows "\<exists>rest. trace (snd (handleAudioPlayback currentAiState model options callback))
            = display_text_effects options @ rest
          \<and> list_all (\<lambda>e. \<not> is_display_effect e) rest"
proof -
  obtain c r where e: "executor currentAiState model options = (c, r)"
    by (cases "executor currentAiState model options")
  from executor_trace[OF assms, of model options] e obtain rest
    where rest: "trace r = display_text_effects options @ rest"
      "list_all (\<lambda>e. \<not> is_display_effect e) rest" by auto
  show ?thesis
  proof (cases callback)
    case None
    with e rest show ?thesis by (simp add: handleAudioPlayback_def)
  next
    case (Some ev)
    obtain more where "trace (on_speak_event ev r) = trace r @ more"
      "list_all (\<lambda>e. \<not> is_display_effect e) more"
      using on_speak_event_trace by blast
    with e rest Some show ?thesis by (simp add: handleAudioPlayback_def)
  qed
qed

text \<open>
  C6 (as amended): for a task executed while the state is not "interrupted" and carrying
  a display text, the effects begin with the two chat-history appends, then the subtitle
  update if the task carries audio, then the "audio-play-start" notification with the
  display text if the task is not marked forwarded; nothing after them, the playback
  included, touches chat history, subtitle or outbound messages.
\<close>

theorem display_text_before_playback:
  assumes "currentAiState \<noteq> ''interrupted''" and "displayText options = Some d"
  shows "\<exists>rest. trace (snd (handleAudioPlayback currentAiState model options callback))
            = [AppendResponse (dt_text d), AppendAIMessage (dt_text d) (dt_name d) (dt_avatar d)]
              @ (if audioBase64 options \<noteq> [] then [SetSubtitleText (dt_text d)] else [])
              @ (if not_forwarded options then [SendAudioPlayStart d] else [])
              @ rest
          \<and> list_all (\<lambda>e. \<not> is_display_effect e) rest"
  using handleAudioPlayback_trace[OF assms(1), of model options callback] assms(2)
  by (simp add: display_text_effects_def)

theorem display_text_before_playback_witness:
  "trace (snd (handleAudioPlayback ''idle'' (Some sound_model) spoken_task (Some OnFinish)))
     = [AppendResponse ''hello'', AppendAIMessage ''hello'' ''AI'' ''a.png'',
        SetSubtitleText ''hello'', SendAudioPlayStart hello,
        ModelExpression (ExprNumber 3), ModelSpeak ''data:audio/wav;base64,UklGRg=='']"
proof -
  have h: "''idle'' \<noteq> ''interrupted''" "displayText spoken_task = Some hello"
    by (simp_all add: spoken_task_def)
  from display_text_before_playback[OF h, of "Some sound_model" "Some OnFinish"]
  show ?thesis
    by (simp add: handleAudioPlayback_def executor_def try_block_def started_def emit_def
        resolve_def on_speak_event_def display_text_effects_def first_expression_def
        not_forwarded_def audioDataUrl_def spoken_task_def sound_model_def hello_def)
qed

text \<open>
  C6 (as stated) fails: a line with display text and no audio is appended to the chat
  history and announced, and the subtitle is not updated.
\<close>

theorem text_only_subtitle_counterexample:
  "''idle'' \<noteq> ''interrupted'' \<and> displayText text_only_task = Some hello
   \<and> trace (snd (handleAudioPlayback ''idle'' (Some sound_model) text_only_task None))
       = [AppendResponse ''hello'', AppendAIMessage ''hello'' ''AI'' ''a.png'',
          SendAudioPlayStart hello]
   \<and> SetSubtitleText ''hello''
       \<notin> set (trace (snd (handleAudioPlayback ''idle'' (Some sound_model) text_only_task None)))"
  by (simp add: handleAudioPlayback_def executor_def try_block_def started_def emit_def
      resolve_def display_text_effects_def first_expression_def
      not_forwarded_def text_only_task_def sound_model_def hello_def)

section \<open>Failures of playback\<close>

lemma executor_completion: "fst (executor currentAiState model options) = Normal"
  by (auto simp: executor_def Let_def split: option.splits prod.splits completion.splits)

lemma try_block_Threw_iff:
  "fst (try_block model options r) = Threw \<longleftrightarrow>
     (first_expression options \<noteq> None \<and> expression_throws model)
     \<or> (audioBase64 options \<noteq> [] \<and> speak_throws model)"
  by (auto simp: try_block_def split: option.splits)

text \<open>
  C7: the promise of \<open>handleAudioPlayback\<close> is never rejected, whatever the state, the
  handle, the task and the callback; once \<open>speak\<close> has taken the callbacks, \<open>onError\<close>
  resolves it just as \<open>onFinish\<close> does; and when \<open>expression\<close> or \<open>speak\<close> throws, it is
  resolved by the end of the executor.
\<close>

theorem handleAudioPlayback_never_rejects:
  "promise_of (handleAudioPlayback currentAiState model options callback) \<noteq> Rejected
   \<and> (speaking (snd (executor currentAiState model options)) \<longrightarrow>
        promise_of (handleAudioPlayback currentAiState model options (Some OnError)) = Resolved
        \<and> resolved (snd (handleAudioPlayback currentAiState model options (Some OnError)))
            = resolved (snd (handleAudioPlayback currentAiState model options (Some OnFinish))))
   \<and> (currentAiState \<noteq> ''interrupted''
        \<and> ((first_expression options \<noteq> None \<and> expression_throws m)
            \<or> (audioBase64 options \<noteq> [] \<and> speak_throws m)) \<longrightarrow>
        promise_of (executor currentAiState (Some m) options) = Resolved
        \<and> promise_of (handleAudioPlayback currentAiState (Some m) options callback) = Resolved)"
proof (intro conjI impI)
  obtain c r where e: "executor currentAiState model options = (c, r)"
    by (cases "executor currentAiState model options")
  with executor_completion[of currentAiState model options] have c: "c = Normal" by simp
  show "promise_of (handleAudioPlayback currentAiState model options callback) \<noteq> Rejected"
    by (simp add: handleAudioPlayback_def e c promise_of_def)
  assume "speaking (snd (executor currentAiState model options))"
  with e have s: "speaking r" by simp
  then show "promise_of (handleAudioPlayback currentAiState model options (Some OnError)) = Resolved"
    by (simp add: handleAudioPlayback_def e promise_of_def on_speak_event_def resolve_def emit_def)
  from s show "resolved (snd (handleAudioPlayback currentAiState model options (Some OnError)))
      = resolved (snd (handleAudioPlayback currentAiState model options (Some OnFinish)))"
    by (simp add: handleAudioPlayback_def e on_speak_event_def resolve_def emit_def)
next
  assume a: "currentAiState \<noteq> ''interrupted''
      \<and> ((first_expression options \<noteq> None \<and> expression_throws m)
          \<or> (audioBase64 options \<noteq> [] \<and> speak_throws m))"
  let ?r1 = "started\<lparr>trace := display_text_effects options\<rparr>"
  from a have "fst (try_block m options ?r1) = Threw"
    by (simp add: try_block_Threw_iff)
  then obtain r2 where t: "try_block m options ?r1 = (Threw, r2)"
    by (cases "try_block m options ?r1") simp
  with a have ex: "executor currentAiState (Some m) options = (Normal, catch_block r2)"
    by (simp add: executor_def)
  show "promise_of (executor currentAiState (Some m) options) = Resolved"
    by (simp add: ex promise_of_def catch_block_def resolve_def)
  show "promise_of (handleAudioPlayback currentAiState (Some m) options callback) = Resolved"
    by (cases callback; cases "the callback")
       (simp_all add: handleAudioPlayback_def ex promise_of_def catch_block_def resolve_def
          on_speak_event_def emit_def)
qed

theorem handleAudioPlayback_never_rejects_witness:
  "speaking (snd (executor ''idle'' (Some sound_model) spoken_task))
   \<and> promise_of (executor ''idle'' (Some sound_model) spoken_task) = Pending
   \<and> promise_of (handleAudioPlayback ''idle'' (Some sound_model) spoken_task (Some OnError))
       = Resolved
   \<and> promise_of (executor ''idle'' (Some broken_model) spoken_task) = Resolved"
proof -
  have s: "speaking (snd (executor ''idle'' (Some sound_model) spoken_task))"
    by (simp add: executor_def try_block_def started_def emit_def first_expression_def
        spoken_task_def sound_model_def)
  have p: "promise_of (executor ''idle'' (Some sound_model) spoken_task) = Pending"
    by (simp add: executor_def try_block_def started_def emit_def first_expression_def
        spoken_task_def sound_model_def promise_of_def)
  have b: "''idle'' \<noteq> ''interrupted''
      \<and> ((first_expression spoken_task \<noteq> None \<and> expression_throws broken_model)
          \<or> (audioBase64 spoken_task \<noteq> [] \<and> speak_throws broken_model))"
    by (simp add: spoken_task_def broken_model_def)
  from handleAudioPlayback_never_rejects[of "''idle''" "Some sound_model" spoken_task None sound_model] s
  have 1: "promise_of (handleAudioPlayback ''idle'' (Some sound_model) spoken_task (Some OnError))
       = Resolved" by blast
  from handleAudioPlayback_never_rejects[of "''idle''" "Some broken_model" spoken_task None broken_model] b
  have 2: "promise_of (executor ''idle'' (Some broken_model) spoken_task) = Resolved" by blast
  from s p 1 2 show ?thesis by blast
qed

section \<open>Interrupted state\<close>

text \<open>
  C8: in the state "interrupted", \<open>addAudioTask\<close> leaves the queue as it is, and a task
  that starts resolves at once; its only effect is the \<open>console.warn\<close> line, so chat
  history, subtitle, outbound messages, expression and playback are untouched.
\<close>

theorem interrupted_drops_task:
  "addAudioTask addTask ''interrupted'' options queue = queue
   \<and> executor ''interrupted'' model options
       = (Normal, \<lparr>trace = [ConsoleWarn], resolved = True, speaking = False\<rparr>)
   \<and> handleAudioPlayback ''interrupted'' model options callback
       = (Normal, \<lparr>trace = [ConsoleWarn], resolved = True, speaking = False\<rparr>)
   \<and> promise_of (executor ''interrupted'' model options) = Resolved"
  by (cases callback)
     (simp_all add: addAudioTask_def executor_def handleAudioPlayback_def promise_of_def
        started_def emit_def resolve_def on_speak_event_def)

theorem interrupted_drops_task_witness:
  "addAudioTask (\<lambda>task queue. queue @ [task]) ''interrupted'' spoken_task [] = []
   \<and> promise_of (executor ''interrupted'' (Some sound_model) spoken_task) = Resolved
   \<and> trace (snd (executor ''interrupted'' (Some sound_model) spoken_task)) = [ConsoleWarn]
   \<and> addAudioTask (\<lambda>task queue. queue @ [task]) ''idle'' spoken_task [] = [spoken_task]"
proof -
  note T = interrupted_drops_task[of "\<lambda>task queue. queue @ [task]" spoken_task "[]"
      "Some sound_model" None]
  from T have 1: "addAudioTask (\<lambda>task queue. queue @ [task]) ''interrupted'' spoken_task [] = []"
    by blast
  from T have 2: "promise_of (executor ''interrupted'' (Some sound_model) spoken_task) = Resolved"
    by blast
  from T have "executor ''interrupted'' (Some sound_model) spoken_task
      = (Normal, \<lparr>trace = [ConsoleWarn], resolved = True, speaking = False\<rparr>)"
    by blast
  then have 3: "trace (snd (executor ''interrupted'' (Some sound_model) spoken_task)) = [ConsoleWarn]"
    by simp
  have 4: "addAudioTask (\<lambda>task queue. queue @ [task]) ''idle'' spoken_task [] = [spoken_task]"
    by (simp add: addAudioTask_def)
  from 1 2 3 4 show ?thesis by blast
qed

section \<open>No model handle\<close>

text \<open>
  C10 (as amended): with no handle on \<open>window.live2dModel\<close> and a state other than
  "interrupted", the promise is resolved by the end of the executor and no callback changes
  the run; the effects are those of the display text (the chat-history appends, the
  subtitle update if the task carries audio, the notification if the task is not marked
  forwarded), then the \<open>console.error\<close> line; no call is made on a model handle.
\<close>

theorem no_model_resolves:
  assumes "currentAiState \<noteq> ''interrupted''"
  shows "handleAudioPlayback currentAiState None options callback
           = executor currentAiState None options
       \<and> promise_of (executor currentAiState None options) = Resolved
       \<and> trace (snd (executor currentAiState None options))
           = (case displayText options of
                None \<Rightarrow> []
              | Some d \<Rightarrow>
                  [AppendResponse (dt_text d),
                   AppendAIMessage (dt_text d) (dt_name d) (dt_avatar d)]
                  @ (if audioBase64 options \<noteq> [] then [SetSubtitleText (dt_text d)] else [])
                  @ (if not_forwarded options then [SendAudioPlayStart d] else []))
             @ [ConsoleError]
       \<and> list_all (\<lambda>e. \<not> is_model_call e) (trace (snd (executor currentAiState None options)))"
  using assms
  by (cases callback)
     (auto simp: executor_def handleAudioPlayback_def promise_of_def display_text_effects_def
        started_def emit_def resolve_def on_speak_event_def is_model_call_def
        split: option.splits)

theorem no_model_resolves_witness:
  "promise_of (executor ''idle'' None spoken_task) = Resolved
   \<and> trace (snd (executor ''idle'' None spoken_task))
       = [AppendResponse ''hello'', AppendAIMessage ''hello'' ''AI'' ''a.png'',
          SetSubtitleText ''hello'', SendAudioPlayStart hello, ConsoleError]"
proof -
  have h: "''idle'' \<noteq> ''interrupted''" by simp
  from no_model_resolves[OF h, of spoken_task None] show ?thesis
    by (simp add: spoken_task_def not_forwarded_def hello_def)
qed

text \<open>
  C10 (as stated) fails: with no handle, a line with display text and no audio does not
  update the subtitle.
\<close>

theorem no_model_text_only_counterexample:
  "''idle'' \<noteq> ''interrupted'' \<and> displayText text_only_task = Some hello
   \<and> trace (snd (executor ''idle'' None text_only_task))
       = [AppendResponse ''hello'', AppendAIMessage ''hello'' ''AI'' ''a.png'',
          SendAudioPlayStart hello, ConsoleError]
   \<and> SetSubtitleText ''hello'' \<notin> set (trace (snd (executor ''idle'' None text_only_task)))"
  by (simp add: executor_def started_def emit_def resolve_def display_text_effects_def
      not_forwarded_def text_only_task_def hello_def)

section \<open>Model loading\<close>

text \<open>
  C9: when \<open>Live2DModel.from\<close> rejects, \<open>loadModel\<close> completes normally: the error is
  logged, \<open>loadingRef\<close> and the loading indicator are cleared, and the stage, the model
  ref and the readiness state are what they were. A call made while \<open>loadingRef\<close> is
  set returns without changing the state.
\<close>

theorem loadModel_failure_contained:
  "loadModel_settle modelInfo (Inl error) s
     = (Normal, s\<lparr>errors := errors s @ [error], loadingRef := False, isLoading := False\<rparr>)
   \<and> app_stage (snd (loadModel_settle modelInfo (Inl error) s)) = app_stage s
   \<and> modelRef (snd (loadModel_settle modelInfo (Inl error) s)) = modelRef s
   \<and> isModelReady (snd (loadModel_settle modelInfo (Inl error) s)) = isModelReady s
   \<and> \<not> loadingRef (snd (loadModel_settle modelInfo (Inl error) s))
   \<and> (loadingRef s \<longrightarrow> loadModel_call modelInfo s = (False, s))"
  by (simp add: loadModel_settle_def loadModel_call_def)

theorem loadModel_failure_contained_witness:
  "loadingRef (ready_loader\<lparr>loadingRef := True\<rparr>)
   \<and> loadModel_call (Some shizuku) (ready_loader\<lparr>loadingRef := True\<rparr>)
       = (False, ready_loader\<lparr>loadingRef := True\<rparr>)
   \<and> fst (loadModel_call (Some shizuku) ready_loader)"
proof -
  have h: "loadingRef (ready_loader\<lparr>loadingRef := True\<rparr>)" by simp
  from loadModel_failure_contained[of "Some shizuku" "''404''" "ready_loader\<lparr>loadingRef := True\<rparr>"] h
  have "loadModel_call (Some shizuku) (ready_loader\<lparr>loadingRef := True\<rparr>)
       = (False, ready_loader\<lparr>loadingRef := True\<rparr>)" by blast
  moreover have "fst (loadModel_call (Some shizuku) ready_loader)"
    by (simp add: loadModel_call_def shizuku_def ready_loader_def)
  ultimately show ?thesis using h by blast
qed

end
